theory Spec2Isabelle
  imports Main "HOL-Library.Sublist"
begin

section \<open>Python strings\<close>

text \<open>
  A Python \<open>str\<close> is modelled as a \<open>string\<close>; a \<open>char\<close> stands for a code point below 256.
  The functions of this section are the \<open>str\<close> methods and the regular expressions that
  \<open>twitterbot.py\<close> uses, restricted to that range.
\<close>

datatype py_error = ValueError | AttributeError | IndexError | NameError | EngineError

text \<open>\<open>c.isspace()\<close>: the characters that \<open>str.split()\<close> and \<open>str.strip()\<close> treat as blank.\<close>

definition is_space :: "char \<Rightarrow> bool" where
  "is_space c = (of_char c \<in> {9, 10, 11, 12, 13, 28, 29, 30, 31, 32, 133, 160 :: nat})"

text \<open>\<open>s.lower()\<close>, character by character.\<close>

definition lower_char :: "char \<Rightarrow> char" where
  "lower_char c =
     (let n = (of_char c :: nat)
      in if (65 \<le> n \<and> n \<le> 90) \<or> (192 \<le> n \<and> n \<le> 222 \<and> n \<noteq> 215)
         then char_of (n + 32) else c)"

definition py_lower :: "string \<Rightarrow> string" where
  "py_lower s = map lower_char s"

text \<open>\<open>sub in s\<close> on strings.\<close>

fun py_in :: "string \<Rightarrow> string \<Rightarrow> bool" where
  "py_in sub [] = (sub = [])"
| "py_in sub (c # cs) = (prefix sub (c # cs) \<or> py_in sub cs)"

text \<open>\<open>s.strip()\<close>.\<close>

definition py_strip :: "string \<Rightarrow> string" where
  "py_strip s = rev (dropWhile is_space (rev (dropWhile is_space s)))"

text \<open>
  \<open>s.split()\<close> with no separator: runs of blanks separate the words, and no empty word is
  produced. The first argument is the word read so far.
\<close>

fun split_ws :: "string \<Rightarrow> string \<Rightarrow> string list" where
  "split_ws w [] = (if w = [] then [] else [w])"
| "split_ws w (c # cs) =
     (if is_space c then (if w = [] then split_ws [] cs else w # split_ws [] cs)
      else split_ws (w @ [c]) cs)"

definition py_split :: "string \<Rightarrow> string list" where
  "py_split s = split_ws [] s"

text \<open>
  \<open>s.split(sep)\<close> for a non-empty separator: every occurrence of \<open>sep\<close>, found from the left
  and never overlapping, ends a field; empty fields are kept. The counter is the number of
  characters of a separator that are still to be skipped.
\<close>

fun split_on :: "string \<Rightarrow> nat \<Rightarrow> string \<Rightarrow> string \<Rightarrow> string list" where
  "split_on sep k w [] = [w]"
| "split_on sep (Suc k) w (c # cs) = split_on sep k w cs"
| "split_on sep 0 w (c # cs) =
     (if prefix sep (c # cs) then w # split_on sep (length sep - 1) [] cs
      else split_on sep 0 (w @ [c]) cs)"

definition py_split_sep :: "string \<Rightarrow> string \<Rightarrow> string list" where
  "py_split_sep sep s = split_on sep 0 [] s"

text \<open>\<open>sep.join(xs)\<close>.\<close>

fun py_join :: "string \<Rightarrow> string list \<Rightarrow> string" where
  "py_join sep [] = []"
| "py_join sep [x] = x"
| "py_join sep (x # y # ys) = x @ sep @ py_join sep (y # ys)"

text \<open>
  \<open>re.search(r'\([^\)]*\)', s)\<close>: the leftmost opening parenthesis that is followed by a
  closing one, with everything up to the first closing parenthesis after it. \<open>None\<close> when
  there is no match.
\<close>

fun re_search_paren :: "string \<Rightarrow> string option" where
  "re_search_paren [] = None"
| "re_search_paren (c # cs) =
     (if c = CHR ''('' \<and> CHR '')'' \<in> set cs
      then Some (c # takeWhile (\<lambda>x. x \<noteq> CHR '')'') cs @ '')'')
      else re_search_paren cs)"

text \<open>
  \<open>re.findall('captures ([^#]*)', s)\<close>, of which the program only uses the emptiness and the
  first element: the text that follows the leftmost \<open>captures\<close> marker, up to the next \<open>#\<close>.
\<close>

fun find_captures :: "string \<Rightarrow> string option" where
  "find_captures [] = None"
| "find_captures (c # cs) =
     (if prefix ''captures '' (c # cs)
      then Some (takeWhile (\<lambda>x. x \<noteq> CHR ''#'') (drop 9 (c # cs)))
      else find_captures cs)"

text \<open>
  \<open>re.search(r'move=([^,]*)', s)\<close>, group 1: the text after the leftmost \<open>move=\<close>, up to the
  next comma.
\<close>

fun re_search_move :: "string \<Rightarrow> string option" where
  "re_search_move [] = None"
| "re_search_move (c # cs) =
     (if prefix ''move='' (c # cs)
      then Some (takeWhile (\<lambda>x. x \<noteq> CHR '','') (drop 5 (c # cs)))
      else re_search_move cs)"

text \<open>The format \<open>{n:#x}\<close> of a non-negative integer.\<close>

definition hex_digit :: "nat \<Rightarrow> char" where
  "hex_digit d = ''0123456789abcdef'' ! d"

fun hex_digits :: "nat \<Rightarrow> string" where
  "hex_digits n = (if n < 16 then [hex_digit n] else hex_digits (n div 16) @ [hex_digit (n mod 16)])"

declare hex_digits.simps [simp del]

definition py_hex :: "nat \<Rightarrow> string" where
  "py_hex n = ''0x'' @ hex_digits n"

text \<open>\<open>str(i)\<close> of an integer.\<close>

definition dec_digit :: "nat \<Rightarrow> char" where
  "dec_digit d = ''0123456789'' ! d"

fun dec_digits :: "nat \<Rightarrow> string" where
  "dec_digits n = (if n < 10 then [dec_digit n] else dec_digits (n div 10) @ [dec_digit (n mod 10)])"

declare dec_digits.simps [simp del]

definition py_str_int :: "int \<Rightarrow> string" where
  "py_str_int i = (if i < 0 then ''-'' @ dec_digits (nat (- i)) else dec_digits (nat i))"

section \<open>The chess library\<close>

text \<open>
  The rules of chess come from the library \<open>python-chess\<close> and the replies from a UCI engine;
  neither is part of the program. They are a parameter of the model: a record of the operations
  that the program calls, over a type \<open>'b\<close> of boards.
  \<^item> \<open>new_board\<close> is \<open>chess.Board()\<close>;
  \<^item> \<open>legal_sans b\<close> lists \<open>b.san(m)\<close> for the moves \<open>m\<close> of \<open>b.legal_moves\<close>;
  \<^item> \<open>generator_id b\<close> is the \<open>id\<close> of the object \<open>b.legal_moves\<close>;
  \<^item> \<open>push_san b s\<close> is the board after \<open>b.push_san(s)\<close>, or the exception it raises;
  \<^item> \<open>is_checkmate b\<close> is \<open>b.is_checkmate()\<close>;
  \<^item> \<open>popen_uci\<close> is the exception that \<open>chess.engine.SimpleEngine.popen_uci\<close> raises, or
    \<open>None\<close> when the engine starts;
  \<^item> \<open>engine_play b\<close> is \<open>str(engine.play(b, limit))\<close> for the started engine, or the
    exception it raises;
  \<^item> \<open>san_of_uci b u\<close> is \<open>b.san(chess.Move.from_uci(u))\<close>, or the exception it raises.
\<close>

record 'b chess =
  new_board :: 'b
  legal_sans :: "'b \<Rightarrow> string list"
  generator_id :: "'b \<Rightarrow> nat"
  push_san :: "'b \<Rightarrow> string \<Rightarrow> py_error + 'b"
  is_checkmate :: "'b \<Rightarrow> bool"
  popen_uci :: "py_error option"
  engine_play :: "'b \<Rightarrow> py_error + string"
  san_of_uci :: "'b \<Rightarrow> string \<Rightarrow> py_error + string"

text \<open>\<open>str(board.legal_moves)\<close>, as the library prints a legal move generator.\<close>

definition legal_moves_str :: "'b chess \<Rightarrow> 'b \<Rightarrow> string" where
  "legal_moves_str lib board =
     ''<LegalMoveGenerator at '' @ py_hex (generator_id lib board) @ '' (''
       @ py_join '', '' (legal_sans lib board) @ '')>''"

section \<open>The functions of the program\<close>

definition possible_moves :: "'b chess \<Rightarrow> 'b \<Rightarrow> py_error + string list" where
  "possible_moves lib board =
     (case re_search_paren (legal_moves_str lib board) of
        None \<Rightarrow> Inl AttributeError
      | Some string \<Rightarrow> Inr (py_split_sep '', '' (butlast (tl string))))"

fun push_loop :: "'b chess \<Rightarrow> 'b \<Rightarrow> string list \<Rightarrow> py_error + 'b" where
  "push_loop lib board [] = Inr board"
| "push_loop lib board (move # pgn) =
     (case push_san lib board move of
        Inl e \<Rightarrow> Inl e
      | Inr board' \<Rightarrow> push_loop lib board' pgn)"

definition push_pgn :: "'b chess \<Rightarrow> string list \<Rightarrow> py_error + 'b" where
  "push_pgn lib pgn = push_loop lib (new_board lib) pgn"

text \<open>
  \<open>apply_player_move\<close> changes the list \<open>game_history\<close> in place; the model returns the list
  as it is after the call, next to the returned truth value.
\<close>

definition apply_player_move ::
  "'b chess \<Rightarrow> string list \<Rightarrow> string \<Rightarrow> py_error + (bool \<times> string list)" where
  "apply_player_move lib game_history attempted_move =
     (case push_pgn lib game_history of
        Inl e \<Rightarrow> Inl e
      | Inr board \<Rightarrow>
          (case possible_moves lib board of
             Inl e \<Rightarrow> Inl e
           | Inr pos_moves \<Rightarrow>
               if attempted_move \<notin> set pos_moves then Inr (False, game_history)
               else Inr (True, game_history @ [attempted_move])))"

definition apply_bot_move ::
  "'b chess \<Rightarrow> string list \<Rightarrow> py_error + (string \<times> string list)" where
  "apply_bot_move lib game_history =
     (case popen_uci lib of
        Some e \<Rightarrow> Inl e
      | None \<Rightarrow>
          (case push_pgn lib game_history of
             Inl e \<Rightarrow> Inl e
           | Inr board \<Rightarrow>
               (case engine_play lib board of
                  Inl e \<Rightarrow> Inl e
                | Inr played \<Rightarrow>
                    (case re_search_move played of
                       None \<Rightarrow> Inl AttributeError
                     | Some uci \<Rightarrow>
                         (case san_of_uci lib board uci of
                            Inl e \<Rightarrow> Inl e
                          | Inr my_move \<Rightarrow> Inr (my_move, game_history @ [my_move]))))))"

definition pgn_list_to_string :: "string list \<Rightarrow> string" where
  "pgn_list_to_string pgn_list = py_join '' '' pgn_list @ '' ''"

fun split_loop :: "string list \<Rightarrow> string \<Rightarrow> string list \<Rightarrow> string list" where
  "split_loop [] fragment ret = ret @ [fragment]"
| "split_loop (a # string_list) fragment ret =
     (if length (fragment @ a) \<le> 240 then split_loop string_list (fragment @ a @ '' '') ret
      else split_loop string_list [] (ret @ [fragment]))"

definition split_to_240_char :: "string \<Rightarrow> string list" where
  "split_to_240_char string = split_loop (py_split string) [] []"

text \<open>
  The program keeps a game as the list of the comma-separated fields of its line in the games
  file: the user name, then the moves. The search for the game of a user is the loop of \<open>main\<close>
  over \<open>range(len(list_of_games))\<close>; \<open>game\<close> is the index reached and \<open>game_index\<close> the
  value of the variable, which starts at \<open>-1\<close>.
\<close>

type_synonym game = "string list"

fun find_game_loop :: "string \<Rightarrow> game list \<Rightarrow> nat \<Rightarrow> int \<Rightarrow> py_error + int" where
  "find_game_loop screen_name [] game game_index = Inr game_index"
| "find_game_loop screen_name (g # gs) game game_index =
     (case g of
        [] \<Rightarrow> Inl IndexError
      | username # _ \<Rightarrow>
          find_game_loop screen_name gs (Suc game)
            (if py_lower screen_name = py_lower username then int game else game_index))"

definition find_game :: "string \<Rightarrow> game list \<Rightarrow> py_error + int" where
  "find_game screen_name list_of_games = find_game_loop screen_name list_of_games 0 (- 1)"

text \<open>Whether the game at an index belongs to a user, as the search compares them.\<close>

definition same_user :: "string \<Rightarrow> game \<Rightarrow> bool" where
  "same_user screen_name g = (g \<noteq> [] \<and> py_lower screen_name = py_lower (hd g))"

text \<open>
  A move token as the chess library writes it: not empty, and free of blanks, commas and
  parentheses.
\<close>

definition san_token :: "string \<Rightarrow> bool" where
  "san_token t = (t \<noteq> [] \<and> list_all (\<lambda>c. \<not> is_space c \<and> c \<notin> set ''(),'') t)"

section \<open>One mention\<close>

text \<open>
  The body of the loop of \<open>main\<close> talks to the platform, to the engine and to two files. The
  model records these calls, in order, as events; a part of the body returns the events it
  caused together with its result, or with the exception that ended it.
  \<^item> \<open>StoreLastSeenId i\<close> is \<open>store_last_seen_id(i, FILE1_NAME)\<close>: the file of the cursor is
    opened for writing, \<open>str(i)\<close> is written, and the file is closed;
  \<^item> \<open>UpdateStatus s i\<close> is \<open>api.update_status(s, i)\<close>;
  \<^item> \<open>UpdateWithMedia s i\<close> is \<open>api.update_with_media\<close> with the status \<open>s\<close> in reply to \<open>i\<close>;
  \<^item> \<open>SendEmail subject message\<close> is \<open>send_email(subject, message)\<close>;
  \<^item> \<open>ApplyBotMove h\<close> is \<open>apply_bot_move\<close> called with the history \<open>h\<close>;
  \<^item> \<open>WriteGames ls\<close> is the games file opened for writing and the lines \<open>ls\<close> written.

  The calls to the platform and to the mail server are taken to return. Printing, the sleep,
  and the board image (fetched, attached and deleted again) have no effect on what follows and
  are left out.
\<close>

datatype event =
    StoreLastSeenId int
  | UpdateStatus string int
  | UpdateWithMedia string int
  | SendEmail string string
  | ApplyBotMove "string list"
  | WriteGames "string list"

type_synonym 'a io = "event list \<times> (py_error + 'a)"

definition io_return :: "'a \<Rightarrow> 'a io" where
  "io_return x = ([], Inr x)"

definition io_raise :: "py_error \<Rightarrow> 'a io" where
  "io_raise e = ([], Inl e)"

definition io_call :: "event \<Rightarrow> unit io" where
  "io_call ev = ([ev], Inr ())"

definition io_try :: "py_error + 'a \<Rightarrow> 'a io" where
  "io_try r = ([], r)"

definition io_bind :: "'a io \<Rightarrow> ('a \<Rightarrow> 'b io) \<Rightarrow> 'b io" where
  "io_bind m f =
     (case m of
        (es, Inl e) \<Rightarrow> (es, Inl e)
      | (es, Inr x) \<Rightarrow> (case f x of (es', r) \<Rightarrow> (es @ es', r)))"

text \<open>The fields of a mention that the program reads.\<close>

record mention =
  m_id :: int
  m_screen_name :: string
  m_full_text :: string

text \<open>
  \<open>curr_game\<close> is a reference to a list object that \<open>list_of_games\<close> may hold as well: an
  assignment to \<open>curr_game[1]\<close> is seen through \<open>list_of_games\<close> as long as the object is in
  that list. The reference is either the position of the object in \<open>list_of_games\<close> or, once
  the object has left the list, the object itself.
\<close>

datatype game_ref = InList nat | Detached game

definition deref :: "game list \<Rightarrow> game_ref \<Rightarrow> game" where
  "deref gs r = (case r of InList i \<Rightarrow> gs ! i | Detached g \<Rightarrow> g)"

definition first_index :: "'a \<Rightarrow> 'a list \<Rightarrow> nat" where
  "first_index v xs = length (takeWhile (\<lambda>x. x \<noteq> v) xs)"

text \<open>
  \<open>list_of_games.remove(curr_game)\<close>: Python removes the first element that is equal to the
  argument, which need not be the object itself.
\<close>

definition list_remove :: "game list \<Rightarrow> game_ref \<Rightarrow> py_error + (game list \<times> game_ref)" where
  "list_remove gs r =
     (let v = deref gs r
      in if v \<notin> set gs then Inl ValueError
         else Inr (remove1 v gs,
                   case r of
                     InList i \<Rightarrow> if first_index v gs = i then Detached v else InList (i - 1)
                   | Detached g \<Rightarrow> Detached g))"

text \<open>\<open>curr_game[1]\<close>, read and assigned.\<close>

definition get_moves :: "game list \<Rightarrow> game_ref \<Rightarrow> py_error + string" where
  "get_moves gs r = (let g = deref gs r in if length g < 2 then Inl IndexError else Inr (g ! 1))"

definition set_moves :: "game list \<Rightarrow> game_ref \<Rightarrow> string \<Rightarrow> py_error + (game list \<times> game_ref)" where
  "set_moves gs r s =
     (let g = deref gs r
      in if length g < 2 then Inl IndexError
         else Inr (case r of
                     InList i \<Rightarrow> (gs[i := g[1 := s]], InList i)
                   | Detached _ \<Rightarrow> (gs, Detached (g[1 := s]))))"

text \<open>The variables of the loop body that one part hands to the next.\<close>

record vars =
  list_of_games :: "game list"
  curr_game :: "game_ref option"
  make_a_move :: bool
  game_over :: bool

text \<open>\<open>[game.strip().split(",") for game in gamefile]\<close>, on the lines of the games file.\<close>

definition load_games :: "string list \<Rightarrow> game list" where
  "load_games gamefile = map (\<lambda>game. py_split_sep '','' (py_strip game)) gamefile"

definition status_to :: "mention \<Rightarrow> string \<Rightarrow> string" where
  "status_to m s = ''@'' @ m_screen_name m @ s"

text \<open>The branches of the chain of tests on the hashtags, in the order of the source.\<close>

definition resign_branch :: "mention \<Rightarrow> game list \<Rightarrow> int \<Rightarrow> vars io" where
  "resign_branch m gs game_index =
     io_bind
       (if game_index \<noteq> - 1
        then io_bind (io_try (list_remove gs (InList (nat game_index))))
               (\<lambda>(gs', r). io_return \<lparr>list_of_games = gs', curr_game = Some r,
                                      make_a_move = False, game_over = True\<rparr>)
        else io_return \<lparr>list_of_games = gs, curr_game = None,
                        make_a_move = False, game_over = False\<rparr>)
       (\<lambda>v. io_bind
               (io_call (UpdateStatus
                  (status_to m '' You made me work hard for that. Good game!'') (m_id m)))
               (\<lambda>_. io_return v))"

definition error_branch :: "mention \<Rightarrow> game list \<Rightarrow> vars io" where
  "error_branch m gs =
     (let message =
            ''A user reported an error using #error in their tweet. Here are the tweet contents: ''
            @ [CHR 0x0A] @ ''Mention ID: '' @ py_str_int (m_id m)
            @ [CHR 0x0A] @ ''Username: '' @ m_screen_name m
            @ [CHR 0x0A] @ ''Text: '' @ m_full_text m
      in io_bind (io_call (SendEmail ''An Error Was Reported'' message))
           (\<lambda>_. io_return \<lparr>list_of_games = gs, curr_game = None,
                             make_a_move = False, game_over = False\<rparr>))"

definition possiblemoves_branch :: "'b chess \<Rightarrow> mention \<Rightarrow> game list \<Rightarrow> int \<Rightarrow> vars io" where
  "possiblemoves_branch lib m gs game_index =
     io_bind
       (if game_index \<noteq> - 1
        then io_bind (io_try (get_moves gs (InList (nat game_index))))
               (\<lambda>moves. io_try (push_pgn lib (py_split moves)))
        else io_return (new_board lib))
       (\<lambda>board. io_bind (io_try (possible_moves lib board))
          (\<lambda>pos_moves. io_bind
             (io_call (UpdateWithMedia
                (status_to m ('' Here are all of the valid moves in this position: ''
                              @ pgn_list_to_string pos_moves)) (m_id m)))
             (\<lambda>_. io_return \<lparr>list_of_games = gs, curr_game = None,
                               make_a_move = False, game_over = False\<rparr>)))"

definition getpgn_branch :: "mention \<Rightarrow> game list \<Rightarrow> int \<Rightarrow> vars io" where
  "getpgn_branch m gs game_index =
     io_bind
       (if game_index \<noteq> - 1
        then io_bind (io_try (get_moves gs (InList (nat game_index))))
               (\<lambda>message.
                  (map (\<lambda>a. UpdateStatus (status_to m ('' '' @ a)) (m_id m))
                     (split_to_240_char message), Inr ()))
        else io_call (UpdateStatus (status_to m '' No game found.'') (m_id m)))
       (\<lambda>_. io_return \<lparr>list_of_games = gs, curr_game = None,
                         make_a_move = False, game_over = False\<rparr>)"

definition nostart_branch :: "mention \<Rightarrow> game list \<Rightarrow> vars io" where
  "nostart_branch m gs =
     io_bind
       (io_call (UpdateStatus
          (status_to m '' Include #startgame if you would like to start a game.'') (m_id m)))
       (\<lambda>_. io_return \<lparr>list_of_games = gs, curr_game = None,
                         make_a_move = False, game_over = False\<rparr>)"

definition startgame_branch :: "mention \<Rightarrow> game list \<Rightarrow> int \<Rightarrow> vars io" where
  "startgame_branch m gs game_index =
     (if game_index \<noteq> - 1
      then io_bind (io_try (set_moves gs (InList (nat game_index)) ''''))
             (\<lambda>(gs', r). io_return \<lparr>list_of_games = gs', curr_game = Some r,
                                    make_a_move = True, game_over = False\<rparr>)
      else io_return \<lparr>list_of_games = gs @ [[m_screen_name m, '''']],
                      curr_game = Some (InList (length gs)),
                      make_a_move = True, game_over = False\<rparr>)"

definition commands :: "'b chess \<Rightarrow> mention \<Rightarrow> game list \<Rightarrow> int \<Rightarrow> vars io" where
  "commands lib m gs game_index =
     (let tweet_lower = py_lower (m_full_text m)
      in if py_in ''#resign'' tweet_lower then resign_branch m gs game_index
         else if py_in ''#error'' tweet_lower then error_branch m gs
         else if py_in ''#possiblemoves'' tweet_lower
           then possiblemoves_branch lib m gs game_index
         else if py_in ''#getpgn'' tweet_lower then getpgn_branch m gs game_index
         else if game_index = - 1 \<and> \<not> py_in ''#startgame'' tweet_lower
           then nostart_branch m gs
         else if py_in ''#startgame'' tweet_lower then startgame_branch m gs game_index
         else io_return \<lparr>list_of_games = gs, curr_game = Some (InList (nat game_index)),
                         make_a_move = True, game_over = False\<rparr>)"

text \<open>The move that the text of the mention asks for; empty when it asks for none.\<close>

definition extract_move :: "string \<Rightarrow> string" where
  "extract_move tweet_text =
     (case find_captures tweet_text of None \<Rightarrow> '''' | Some found \<Rightarrow> py_strip found)"

definition remove_curr :: "vars \<Rightarrow> vars io" where
  "remove_curr v =
     (case curr_game v of
        None \<Rightarrow> io_raise NameError
      | Some r \<Rightarrow>
          io_bind (io_try (list_remove (list_of_games v) r))
            (\<lambda>(gs', r'). io_return (v\<lparr>list_of_games := gs', curr_game := Some r'\<rparr>)))"

text \<open>
  The call of \<open>apply_bot_move\<close>, recorded with the history it is given: the function starts
  the engine before anything else.
\<close>

definition bot_reply :: "'b chess \<Rightarrow> string list \<Rightarrow> (string \<times> string list) io" where
  "bot_reply lib move_history =
     io_bind (io_call (ApplyBotMove move_history))
       (\<lambda>_. io_try (apply_bot_move lib move_history))"

text \<open>After \<open>apply_player_move\<close> has returned \<open>True\<close>.\<close>

definition player_moved ::
  "'b chess \<Rightarrow> mention \<Rightarrow> vars \<Rightarrow> string list \<Rightarrow> (vars \<times> string list) io" where
  "player_moved lib m v move_history =
     io_bind (io_try (push_pgn lib move_history))
       (\<lambda>board.
          if is_checkmate lib board
          then io_bind (remove_curr (v\<lparr>game_over := True\<rparr>))
                 (\<lambda>v'. io_bind
                    (io_call (UpdateWithMedia
                       (status_to m '' You mated me! Congratulations!'') (m_id m)))
                    (\<lambda>_. io_return (v', move_history)))
          else io_bind (bot_reply lib move_history)
                 (\<lambda>(bot_move, move_history').
                    io_bind (io_try (push_pgn lib move_history'))
                      (\<lambda>board'.
                         if is_checkmate lib board'
                         then io_bind (remove_curr (v\<lparr>game_over := True\<rparr>))
                                (\<lambda>v'. io_bind
                                   (io_call (UpdateWithMedia
                                      (status_to m ('' '' @ bot_move @ ''Checkmate!''))
                                      (m_id m)))
                                   (\<lambda>_. io_return (v', move_history')))
                         else io_bind
                                (io_call (UpdateWithMedia
                                   (status_to m ('' '' @ bot_move)) (m_id m)))
                                (\<lambda>_. io_return (v, move_history')))))"

text \<open>The three cases of \<open>if make_a_move\<close>: a move was tried, a game is started as black, or
  nothing was asked.\<close>

definition play :: "'b chess \<Rightarrow> mention \<Rightarrow> vars \<Rightarrow> string list \<Rightarrow> (vars \<times> string list) io" where
  "play lib m v move_history =
     (let move_tried = extract_move (m_full_text m)
      in if length move_tried > 0
         then io_bind (io_try (apply_player_move lib move_history move_tried))
                (\<lambda>(applied, move_history').
                   if applied then player_moved lib m v move_history'
                   else io_bind (io_try (push_pgn lib move_history'))
                          (\<lambda>_. io_bind
                             (io_call (UpdateWithMedia
                                (status_to m
                                   '' That move is invalid. If you would to see a list of valid moves, use the #possiblemoves'')
                                (m_id m)))
                             (\<lambda>_. io_return (v, move_history'))))
         else if py_in ''#startgame'' (py_lower (m_full_text m))
         then io_bind (bot_reply lib move_history)
                (\<lambda>(bot_move, move_history').
                   io_bind (io_try (push_pgn lib move_history'))
                     (\<lambda>_. io_bind
                        (io_call (UpdateWithMedia (status_to m ('' '' @ bot_move)) (m_id m)))
                        (\<lambda>_. io_return (v, move_history'))))
         else io_bind (io_try (push_pgn lib move_history))
                (\<lambda>_. io_bind
                   (io_call (UpdateWithMedia
                      (status_to m '' You need to make a move.'') (m_id m)))
                   (\<lambda>_. io_return (v, move_history))))"

text \<open>The end of \<open>if make_a_move\<close>: a game without moves is dropped, any other is updated.\<close>

definition update_game :: "vars \<Rightarrow> string list \<Rightarrow> vars io" where
  "update_game v move_history =
     (if length move_history = 0 then remove_curr v
      else (case curr_game v of
              None \<Rightarrow> io_raise NameError
            | Some r \<Rightarrow>
                io_bind (io_try (set_moves (list_of_games v) r
                                   (pgn_list_to_string move_history)))
                  (\<lambda>(gs', r'). io_return (v\<lparr>list_of_games := gs', curr_game := Some r'\<rparr>))))"

definition move_part :: "'b chess \<Rightarrow> mention \<Rightarrow> vars \<Rightarrow> vars io" where
  "move_part lib m v =
     (case curr_game v of
        None \<Rightarrow> io_raise NameError
      | Some r \<Rightarrow>
          io_bind (io_try (get_moves (list_of_games v) r))
            (\<lambda>moves. io_bind (play lib m v (py_split moves))
               (\<lambda>(v', move_history). update_game v' move_history)))"

text \<open>The posts of \<open>if game_over\<close>: the link, then the moves in fragments.\<close>

definition game_over_posts :: "mention \<Rightarrow> string \<Rightarrow> event list" where
  "game_over_posts m moves =
     UpdateStatus
       (status_to m
          '' Use this link and the following pgn to create a gif of your game! https://www.chess.com/gifs'')
       (m_id m)
     # map (\<lambda>a. UpdateStatus (status_to m ('' '' @ a)) (m_id m)) (split_to_240_char moves)"

definition game_over_part :: "mention \<Rightarrow> vars \<Rightarrow> unit io" where
  "game_over_part m v =
     (case curr_game v of
        None \<Rightarrow> io_raise NameError
      | Some r \<Rightarrow>
          io_bind (io_try (get_moves (list_of_games v) r))
            (\<lambda>moves. (game_over_posts m moves, Inr ())))"

text \<open>
  The games file is opened for writing, which empties it, and one line is written for each
  game; a game with fewer than two fields ends the loop with the lines written so far.
\<close>

text \<open>The line of a game in the games file.\<close>

definition game_line :: "game \<Rightarrow> string" where
  "game_line g = g ! 0 @ '','' @ g ! 1 @ [CHR 0x0A]"

fun write_loop :: "game list \<Rightarrow> string list \<Rightarrow> string list \<times> py_error option" where
  "write_loop [] written = (written, None)"
| "write_loop (g # gs) written =
     (if length g < 2 then (written, Some IndexError)
      else write_loop gs (written @ [game_line g]))"

definition write_games :: "game list \<Rightarrow> string list io" where
  "write_games gs =
     (case write_loop gs [] of
        (written, None) \<Rightarrow> ([WriteGames written], Inr written)
      | (written, Some e) \<Rightarrow> ([WriteGames written], Inl e))"

text \<open>
  The loop body after the games file has been read: what it does to the list of games, and
  the lines it writes back.
\<close>

definition process_mention ::
  "'b chess \<Rightarrow> mention \<Rightarrow> game list \<Rightarrow> (game list \<times> string list) io" where
  "process_mention lib m gs =
     io_bind (io_try (find_game (m_screen_name m) gs))
       (\<lambda>game_index. io_bind (commands lib m gs game_index)
          (\<lambda>v. io_bind (if make_a_move v then move_part lib m v else io_return v)
             (\<lambda>v'. io_bind (if game_over v' then game_over_part m v' else io_return ())
                (\<lambda>_. io_bind (write_games (list_of_games v'))
                   (\<lambda>written. io_return (list_of_games v', written))))))"

definition main_body :: "'b chess \<Rightarrow> mention \<Rightarrow> string list \<Rightarrow> (game list \<times> string list) io" where
  "main_body lib m gamefile = process_mention lib m (load_games gamefile)"

section \<open>One cycle\<close>

text \<open>
  \<open>main\<close> reads the cursor and asks the platform for the mentions after it; \<open>mentions\<close> is
  the list that the platform returns, newest first. \<open>main\<close> takes the mentions in reverse,
  oldest first. For each it stores the identifier, then reads the games file and runs the body. The file that the body writes is opened at the end of the body
  and is not closed there, so what the next mention reads depends on when the interpreter
  flushes it; the model takes what each reading returns as a parameter, \<open>gamefile k\<close> for the
  reading of the mention number \<open>k\<close>. An exception ends the cycle. The result is the events of
  the cycle and the exception, if there was one.
\<close>

fun main_loop ::
  "'b chess \<Rightarrow> (nat \<Rightarrow> string list) \<Rightarrow> nat \<Rightarrow> mention list \<Rightarrow> event list \<times> py_error option"
  where
  "main_loop lib gamefile k [] = ([], None)"
| "main_loop lib gamefile k (mention # mentions) =
     (case main_body lib mention (gamefile k) of
        (es, Inl e) \<Rightarrow> (StoreLastSeenId (m_id mention) # es, Some e)
      | (es, Inr _) \<Rightarrow>
          (case main_loop lib gamefile (Suc k) mentions of
             (es', r) \<Rightarrow> (StoreLastSeenId (m_id mention) # es @ es', r)))"

definition main ::
  "'b chess \<Rightarrow> (nat \<Rightarrow> string list) \<Rightarrow> mention list \<Rightarrow> event list \<times> py_error option"
  where
  "main lib gamefile mentions = main_loop lib gamefile 0 (rev mentions)"

text \<open>The identifiers stored during a cycle, in order.\<close>

fun stored_ids :: "event list \<Rightarrow> int list" where
  "stored_ids [] = []"
| "stored_ids (StoreLastSeenId i # es) = i # stored_ids es"
| "stored_ids (_ # es) = stored_ids es"

section \<open>Predicates for the statements\<close>

text \<open>What holds of the result of a part when it ends without an exception, and of its events.\<close>

definition io_post :: "('a \<Rightarrow> bool) \<Rightarrow> 'a io \<Rightarrow> bool" where
  "io_post P m = (\<forall>es x. m = (es, Inr x) \<longrightarrow> P x)"

definition io_events :: "(event \<Rightarrow> bool) \<Rightarrow> 'a io \<Rightarrow> bool" where
  "io_events Q m = (\<forall>ev\<in>set (fst m). Q ev)"


fun is_store_id :: "event \<Rightarrow> bool" where
  "is_store_id (StoreLastSeenId _) = True"
| "is_store_id _ = False"

fun is_write_games :: "event \<Rightarrow> bool" where
  "is_write_games (WriteGames _) = True"
| "is_write_games _ = False"

text \<open>What holds of the events of a part that ends with an exception.\<close>

definition io_fails_with :: "(event \<Rightarrow> bool) \<Rightarrow> 'a io \<Rightarrow> bool" where
  "io_fails_with Q m = (\<forall>es e. m = (es, Inl e) \<longrightarrow> (\<forall>ev\<in>set es. Q ev))"

text \<open>A history as \<open>split()\<close> returns it: no word is empty or holds a blank.\<close>

definition words_ok :: "string list \<Rightarrow> bool" where
  "words_ok H = (\<forall>t\<in>set H. t \<noteq> [] \<and> (\<forall>c\<in>set t. \<not> is_space c))"

text \<open>
  What the chess library is relied on for: the notation of a move, of a legal move of a
  position and of the move that the engine answers with, is a move token.
\<close>

definition library_ok :: "'b chess \<Rightarrow> bool" where
  "library_ok lib =
     ((\<forall>b. \<forall>t\<in>set (legal_sans lib b). san_token t)
      \<and> (\<forall>b uci s. san_of_uci lib b uci = Inr s \<longrightarrow> san_token s))"

text \<open>The store invariant: every game has its two fields, and its moves can be replayed.\<close>

definition store_inv :: "'b chess \<Rightarrow> game list \<Rightarrow> bool" where
  "store_inv lib gs =
     (\<forall>g\<in>set gs. 2 \<le> length g \<and> (\<exists>b. push_pgn lib (py_split (g ! 1)) = Inr b))"

text \<open>No two games of the list belong to the same user.\<close>

definition one_game_per_user :: "game list \<Rightarrow> bool" where
  "one_game_per_user gs = distinct (map (\<lambda>g. py_lower (hd g)) gs)"



section \<open>A small chess library\<close>

text \<open>
  An instance of the library record, to run the program on: it knows the positions of the game
  1. f3 (or f4) e5 2. g4 Qh4 mate, numbered by the moves played, and its engine plays that
  game. Its notation leaves out the marks for check and mate.
\<close>

definition mini_sans :: "nat \<Rightarrow> string list" where
  "mini_sans b =
     (if b = 0 then [''f3'', ''f4''] else if b = 1 then [''e5'']
      else if b = 2 then [''g4''] else if b = 3 then [''Qh4''] else [])"

definition mini_uci :: "nat \<Rightarrow> string" where
  "mini_uci b =
     (if b = 0 then ''f2f3'' else if b = 1 then ''e7e5''
      else if b = 2 then ''g2g4'' else if b = 3 then ''d8h4'' else ''None'')"

definition mini_chess :: "nat chess" where
  "mini_chess =
     \<lparr>new_board = 0,
      legal_sans = mini_sans,
      generator_id = (\<lambda>b. 139800 + b),
      push_san = (\<lambda>b s. if s \<in> set (mini_sans b) then Inr (Suc b) else Inl ValueError),
      is_checkmate = (\<lambda>b. b = 4),
      popen_uci = None,
      engine_play = (\<lambda>b. Inr (''<PlayResult at 0x7f3a (move='' @ mini_uci b
                               @ '', ponder=None, info={}, draw_offered=False, resigned=False)>'')),
      san_of_uci = (\<lambda>b u. if b < 4 \<and> u = mini_uci b then Inr (hd (mini_sans b))
                           else Inl ValueError)\<rparr>"

section \<open>Properties of the string functions\<close>

lemma is_space_blank: "is_space CHR '' ''"
  by (simp add: is_space_def)

lemma split_ws_word:
  "\<forall>c\<in>set t. \<not> is_space c \<Longrightarrow> split_ws w (t @ rest) = split_ws (w @ t) rest"
  by (induction t arbitrary: w) auto

lemma split_ws_join:
  "\<forall>t\<in>set H. t \<noteq> [] \<and> (\<forall>c\<in>set t. \<not> is_space c) \<Longrightarrow>
   split_ws [] (py_join '' '' H @ '' '' @ rest) = H @ split_ws [] rest"
proof (induction "'' ''" H rule: py_join.induct)
  case 1
  then show ?case by (simp add: is_space_blank)
next
  case (2 x)
  then show ?case by (simp add: split_ws_word is_space_blank)
next
  case (3 x y ys)
  have "split_ws [] (x @ '' '' @ py_join '' '' (y # ys) @ '' '' @ rest)
        = x # split_ws [] (py_join '' '' (y # ys) @ '' '' @ rest)"
    using 3(2) by (simp add: split_ws_word is_space_blank)
  with 3 show ?case by simp
qed

lemma py_split_pgn_list_to_string:
  "\<forall>t\<in>set H. t \<noteq> [] \<and> (\<forall>c\<in>set t. \<not> is_space c) \<Longrightarrow> py_split (pgn_list_to_string H) = H"
  using split_ws_join [of H "[]"] by (simp add: py_split_def pgn_list_to_string_def)

lemma hex_digit_set: "d < 16 \<Longrightarrow> hex_digit d \<in> set ''0123456789abcdef''"
  unfolding hex_digit_def by (rule nth_mem) simp

lemma hex_digits_set: "set (hex_digits n) \<subseteq> set ''0123456789abcdef''"
proof (induction n rule: hex_digits.induct)
  case (1 n)
  show ?case
  proof (cases "n < 16")
    case True
    then show ?thesis using hex_digit_set [of n] by (subst hex_digits.simps) simp
  next
    case False
    have "hex_digit (n mod 16) \<in> set ''0123456789abcdef''" by (rule hex_digit_set) simp
    with False 1 show ?thesis by (subst hex_digits.simps) simp
  qed
qed

lemma py_hex_no_paren: "CHR ''('' \<notin> set (py_hex n)"
  using hex_digits_set [of n] by (auto simp: py_hex_def)

lemma re_search_paren_skip:
  "CHR ''('' \<notin> set pre \<Longrightarrow> re_search_paren (pre @ s) = re_search_paren s"
  by (induction pre) auto

lemma takeWhile_stop: "\<not> P y \<Longrightarrow> takeWhile P (xs @ y # ys) = takeWhile P xs"
  by (induction xs) auto

lemma takeWhile_all: "c \<notin> set xs \<Longrightarrow> takeWhile (\<lambda>x. x \<noteq> c) xs = xs"
  by (induction xs) auto

lemma split_on_nonempty: "split_on sep k w s \<noteq> []"
  by (induction sep k w s rule: split_on.induct) auto

lemma split_on_token:
  "CHR '','' \<notin> set t \<Longrightarrow> split_on '', '' 0 w (t @ rest) = split_on '', '' 0 (w @ t) rest"
  by (induction t arbitrary: w) auto

lemma split_on_join:
  "sans \<noteq> [] \<Longrightarrow> \<forall>t\<in>set sans. CHR '','' \<notin> set t \<Longrightarrow>
   split_on '', '' 0 [] (py_join '', '' sans) = sans"
proof (induction "'', ''" sans rule: py_join.induct)
  case 1
  then show ?case by simp
next
  case (2 x)
  then show ?case using split_on_token [of x "[]" "[]"] by simp
next
  case (3 x y ys)
  have "split_on '', '' 0 [] (x @ '', '' @ py_join '', '' (y # ys))
        = x # split_on '', '' 0 [] (py_join '', '' (y # ys))"
    using 3(3) split_on_token [of x "[]"] by simp
  with 3 show ?case by simp
qed

lemma py_join_set: "set (py_join sep xs) \<subseteq> set sep \<union> \<Union> (set ` set xs)"
  by (induction sep xs rule: py_join.induct) auto

lemma san_token_chars:
  "san_token t \<Longrightarrow>
   CHR '','' \<notin> set t \<and> CHR '')'' \<notin> set t \<and> CHR ''('' \<notin> set t \<and> t \<noteq> []
     \<and> (\<forall>c\<in>set t. \<not> is_space c)"
  by (auto simp: san_token_def list_all_iff)

section \<open>The enumeration of the legal moves\<close>

text \<open>
  The regular expression always finds the parenthesised list that the library prints, so
  \<open>possible_moves\<close> never raises: it returns the fields of that list up to the first closing
  parenthesis.
\<close>

lemma possible_moves_eq:
  "possible_moves lib board =
     Inr (py_split_sep '', ''
            (takeWhile (\<lambda>x. x \<noteq> CHR '')'') (py_join '', '' (legal_sans lib board))))"
proof -
  let ?pre = "''<LegalMoveGenerator at '' @ py_hex (generator_id lib board) @ '' ''"
  let ?X = "py_join '', '' (legal_sans lib board)"
  have pre: "CHR ''('' \<notin> set ?pre" using py_hex_no_paren by simp
  have "legal_moves_str lib board = ?pre @ (CHR ''('' # ?X @ '')>'')"
    by (simp add: legal_moves_str_def)
  then have "re_search_paren (legal_moves_str lib board)
             = re_search_paren (CHR ''('' # ?X @ '')>'')"
    using re_search_paren_skip [OF pre] by simp
  also have "\<dots> = Some (CHR ''('' # takeWhile (\<lambda>x. x \<noteq> CHR '')'') ?X @ '')'')"
    using takeWhile_stop [of "\<lambda>x. x \<noteq> CHR '')''" "CHR '')''" ?X "''>''"] by simp
  finally show ?thesis by (simp add: possible_moves_def butlast_append)
qed

lemma possible_moves_tokens:
  assumes "\<forall>t\<in>set (legal_sans lib board). san_token t"
  shows "possible_moves lib board =
           Inr (if legal_sans lib board = [] then [''''] else legal_sans lib board)"
proof (cases "legal_sans lib board = []")
  case True
  then show ?thesis by (simp add: possible_moves_eq py_split_sep_def)
next
  case False
  let ?X = "py_join '', '' (legal_sans lib board)"
  have "\<forall>t\<in>set (legal_sans lib board). CHR '')'' \<notin> set t"
    using assms san_token_chars by blast
  then have "CHR '')'' \<notin> set ?X"
    using py_join_set [of "'', ''" "legal_sans lib board"] by auto
  then have tw: "takeWhile (\<lambda>x. x \<noteq> CHR '')'') ?X = ?X"
    by (rule takeWhile_all)
  have "\<forall>t\<in>set (legal_sans lib board). CHR '','' \<notin> set t"
    using assms san_token_chars by blast
  with False have "split_on '', '' 0 [] ?X = legal_sans lib board"
    by (rule split_on_join)
  with False show ?thesis
    unfolding possible_moves_eq py_split_sep_def tw by simp
qed

text \<open>
  Claim C10. In a position without a legal move the library prints an empty list, and
  \<open>possible_moves\<close> returns the list that holds the empty string: a token that is not a legal
  move. In every position the returned list is not empty.
\<close>

theorem possible_moves_no_legal_move:
  "(legal_sans lib board = [] \<longrightarrow>
       possible_moves lib board = Inr [''''] \<and> '''' \<notin> set (legal_sans lib board))
   \<and> (\<exists>ms. possible_moves lib board = Inr ms \<and> ms \<noteq> [])"
  using split_on_nonempty [of "'', ''" 0 "[]"]
  by (simp add: possible_moves_eq py_split_sep_def)

theorem possible_moves_no_legal_move_witness:
  "legal_sans mini_chess 4 = [] \<and> possible_moves mini_chess 4 = Inr ['''']
   \<and> '''' \<notin> set (legal_sans mini_chess 4)"
  using possible_moves_no_legal_move [of mini_chess 4]
  by (simp add: mini_chess_def mini_sans_def)

section \<open>The move of the player\<close>

text \<open>
  Claim C1, as amended. A history that cannot be replayed makes \<open>apply_player_move\<close> raise
  the exception of the replay, and the history is not touched. A history that can be replayed
  gives a position; when the library writes the legal moves of that position as move tokens,
  and the attempted move is not the empty string in a position without a legal move,
  \<open>apply_player_move\<close> returns \<open>True\<close> exactly when the attempted move is, as a string, one
  of the legal moves of the position. The history then ends with the attempted move, and is
  unchanged otherwise.
\<close>

theorem apply_player_move_legal:
  "(\<forall>e. push_pgn lib game_history = Inl e \<longrightarrow>
        apply_player_move lib game_history attempted_move = Inl e)
   \<and> (\<forall>board. push_pgn lib game_history = Inr board \<longrightarrow>
          (\<forall>t\<in>set (legal_sans lib board). san_token t) \<longrightarrow>
          (legal_sans lib board \<noteq> [] \<or> attempted_move \<noteq> '''') \<longrightarrow>
          apply_player_move lib game_history attempted_move =
            Inr (attempted_move \<in> set (legal_sans lib board),
                 if attempted_move \<in> set (legal_sans lib board)
                 then game_history @ [attempted_move] else game_history))"
proof (intro conjI allI impI)
  fix e
  assume "push_pgn lib game_history = Inl e"
  then show "apply_player_move lib game_history attempted_move = Inl e"
    by (simp add: apply_player_move_def)
next
  fix board
  assume replay: "push_pgn lib game_history = Inr board"
    and tokens: "\<forall>t\<in>set (legal_sans lib board). san_token t"
    and move: "legal_sans lib board \<noteq> [] \<or> attempted_move \<noteq> ''''"
  from possible_moves_tokens [OF tokens] replay move
  show "apply_player_move lib game_history attempted_move =
            Inr (attempted_move \<in> set (legal_sans lib board),
                 if attempted_move \<in> set (legal_sans lib board)
                 then game_history @ [attempted_move] else game_history)"
    by (auto simp: apply_player_move_def)
qed

theorem apply_player_move_legal_witness:
  "push_pgn mini_chess [] = Inr 0
   \<and> legal_sans mini_chess 0 = [''f3'', ''f4'']
   \<and> apply_player_move mini_chess [] ''f4'' = Inr (True, [''f4''])
   \<and> apply_player_move mini_chess [] ''f2f4'' = Inr (False, [])
   \<and> push_pgn mini_chess [''f3'', ''e5'', ''g4'', ''Qh4''] = Inr 4
   \<and> legal_sans mini_chess 4 = []
   \<and> apply_player_move mini_chess [''f3'', ''e5'', ''g4'', ''Qh4''] ''Kf2''
       = Inr (False, [''f3'', ''e5'', ''g4'', ''Qh4''])
   \<and> push_pgn mini_chess [''e4''] = Inl ValueError
   \<and> apply_player_move mini_chess [''e4''] ''e5'' = Inl ValueError"
proof -
  have p0: "push_pgn mini_chess [] = Inr 0"
    by (simp add: push_pgn_def mini_chess_def)
  have l0: "legal_sans mini_chess 0 = [''f3'', ''f4'']"
    by (simp add: mini_chess_def mini_sans_def)
  have t0: "\<forall>t\<in>set (legal_sans mini_chess 0). san_token t"
    by (simp add: l0 san_token_def is_space_def)
  have p4: "push_pgn mini_chess [''f3'', ''e5'', ''g4'', ''Qh4''] = Inr 4"
    by (simp add: push_pgn_def mini_chess_def mini_sans_def)
  have l4: "legal_sans mini_chess 4 = []"
    by (simp add: mini_chess_def mini_sans_def)
  have pe: "push_pgn mini_chess [''e4''] = Inl ValueError"
    by (simp add: push_pgn_def mini_chess_def mini_sans_def)
  show ?thesis
    using p0 l0 t0 p4 l4 pe
      apply_player_move_legal [of mini_chess "[]" "''f4''"]
      apply_player_move_legal [of mini_chess "[]" "''f2f4''"]
      apply_player_move_legal [of mini_chess "[''f3'', ''e5'', ''g4'', ''Qh4'']" "''Kf2''"]
      apply_player_move_legal [of mini_chess "[''e4'']" "''e5''"]
    by simp
qed

text \<open>
  Claim C1 as it is written fails for the empty string: in a position without a legal move
  the list of \<open>possible_moves\<close> holds the empty string, so \<open>apply_player_move\<close> accepts it and
  appends it to the history, though the position has no legal move. \<open>main\<close> never passes the
  empty string: it calls \<open>apply_player_move\<close> only under \<open>len(move_tried) > 0\<close>.
\<close>

theorem apply_player_move_empty_token:
  "push_pgn mini_chess [''f3'', ''e5'', ''g4'', ''Qh4''] = Inr 4
   \<and> legal_sans mini_chess 4 = []
   \<and> '''' \<notin> set (legal_sans mini_chess 4)
   \<and> apply_player_move mini_chess [''f3'', ''e5'', ''g4'', ''Qh4''] ''''
       = Inr (True, [''f3'', ''e5'', ''g4'', ''Qh4'', ''''])"
  by (simp add: apply_player_move_def possible_moves_eq push_pgn_def py_split_sep_def
        mini_chess_def mini_sans_def)

section \<open>The history as text\<close>

text \<open>
  Claim C6. A history of tokens that are not empty and hold no blank is read back unchanged
  from its text: \<open>pgn_list_to_string\<close> joins the tokens with spaces and adds one more, and
  \<open>split()\<close> returns the tokens in the same order.
\<close>

theorem history_roundtrip:
  assumes "\<forall>t\<in>set H. t \<noteq> [] \<and> (\<forall>c\<in>set t. \<not> is_space c)"
  shows "py_split (pgn_list_to_string H) = H
         \<and> pgn_list_to_string H = py_join '' '' H @ '' ''"
  using py_split_pgn_list_to_string [OF assms] by (simp add: pgn_list_to_string_def)

theorem history_roundtrip_witness:
  "py_split (pgn_list_to_string [''e4'', ''e5'', ''Nf3'']) = [''e4'', ''e5'', ''Nf3'']
   \<and> pgn_list_to_string [''e4'', ''e5'', ''Nf3''] = ''e4 e5 Nf3 ''"
proof (intro conjI)
  have h: "\<forall>t\<in>set [''e4'', ''e5'', ''Nf3'']. t \<noteq> [] \<and> (\<forall>c\<in>set t. \<not> is_space c)"
    by (simp add: is_space_def)
  show "py_split (pgn_list_to_string [''e4'', ''e5'', ''Nf3'']) = [''e4'', ''e5'', ''Nf3'']"
    using history_roundtrip [OF h] by (rule conjunct1)
  show "pgn_list_to_string [''e4'', ''e5'', ''Nf3''] = ''e4 e5 Nf3 ''"
    by (simp add: pgn_list_to_string_def)
qed

section \<open>Long texts\<close>

text \<open>
  Claim C5. The claim fails on the program. The token that does not fit into a fragment is
  dropped, not carried over: of 61 tokens \<open>Nf3\<close> only 60 come back, in one fragment followed
  by an empty one. And a fragment that is filled to 240 characters by its last token still
  gets the space after the token, and is 241 characters long.
\<close>

theorem split_to_240_char_loses_token:
  "split_to_240_char (concat (replicate 61 ''Nf3 '')) = [concat (replicate 60 ''Nf3 ''), '''']
   \<and> map length (split_to_240_char (concat (replicate 59 ''Nf3 '') @ ''Qxe5'')) = [241]"
  by code_simp

section \<open>The game of a user\<close>

lemma find_game_loop_result:
  "\<forall>g\<in>set gs. g \<noteq> [] \<Longrightarrow>
   \<exists>r. find_game_loop name gs k acc = Inr r \<and>
     (if \<exists>i<length gs. same_user name (gs ! i)
      then \<exists>i<length gs. r = int (k + i) \<and> same_user name (gs ! i)
             \<and> (\<forall>j<length gs. i < j \<longrightarrow> \<not> same_user name (gs ! j))
      else r = acc)"
proof (induction gs arbitrary: k acc)
  case Nil
  then show ?case by simp
next
  case (Cons g gs)
  then obtain u rest where g: "g = u # rest" by (cases g) auto
  let ?acc = "if py_lower name = py_lower u then int k else acc"
  from Cons.prems have ne: "\<forall>g\<in>set gs. g \<noteq> []" by simp
  from Cons.IH [OF ne, of "Suc k" ?acc] obtain r where
    r: "find_game_loop name gs (Suc k) ?acc = Inr r"
    and rr: "if \<exists>i<length gs. same_user name (gs ! i)
      then \<exists>i<length gs. r = int (Suc k + i) \<and> same_user name (gs ! i)
             \<and> (\<forall>j<length gs. i < j \<longrightarrow> \<not> same_user name (gs ! j))
      else r = ?acc" by blast
  have res: "find_game_loop name (g # gs) k acc = Inr r" using g r by simp
  show ?case
  proof (cases "\<exists>i<length gs. same_user name (gs ! i)")
    case True
    with rr obtain i where i: "i < length gs" "r = int (Suc k + i)" "same_user name (gs ! i)"
      "\<forall>j<length gs. i < j \<longrightarrow> \<not> same_user name (gs ! j)" by auto
    have "Suc i < length (g # gs) \<and> r = int (k + Suc i) \<and> same_user name ((g # gs) ! Suc i)
          \<and> (\<forall>j<length (g # gs). Suc i < j \<longrightarrow> \<not> same_user name ((g # gs) ! j))"
      using i by (auto simp: nth_Cons split: nat.splits)
    moreover have "\<exists>i<length (g # gs). same_user name ((g # gs) ! i)"
      using i by (intro exI [of _ "Suc i"]) simp
    ultimately show ?thesis using res by (simp only: if_True) blast
  next
    case False
    with rr have racc: "r = ?acc" by simp
    show ?thesis
    proof (cases "py_lower name = py_lower u")
      case True
      then have su: "same_user name ((g # gs) ! 0)" by (simp add: same_user_def g)
      have "0 < length (g # gs) \<and> r = int (k + 0) \<and> same_user name ((g # gs) ! 0)
          \<and> (\<forall>j<length (g # gs). 0 < j \<longrightarrow> \<not> same_user name ((g # gs) ! j))"
        using su racc True False by (auto simp: nth_Cons split: nat.splits)
      moreover have "\<exists>i<length (g # gs). same_user name ((g # gs) ! i)"
        using su by (intro exI [of _ 0]) simp
      ultimately show ?thesis using res by (simp only: if_True) blast
    next
      case F2: False
      then have "\<not> same_user name g" by (simp add: same_user_def g)
      with False have nex: "\<not> (\<exists>i<length (g # gs). same_user name ((g # gs) ! i))"
        by (auto simp: nth_Cons split: nat.splits)
      from racc F2 have racc2: "r = acc" by simp
      have "if \<exists>i<length (g # gs). same_user name ((g # gs) ! i)
        then \<exists>i<length (g # gs). r = int (k + i) \<and> same_user name ((g # gs) ! i)
             \<and> (\<forall>j<length (g # gs). i < j \<longrightarrow> \<not> same_user name ((g # gs) ! j))
        else r = acc" unfolding if_not_P [OF nex] by (rule racc2)
      with res show ?thesis by blast
    qed
  qed
qed

lemma find_game_result:
  assumes "\<forall>g\<in>set gs. g \<noteq> []"
  shows "\<exists>idx. find_game name gs = Inr idx \<and>
     (if \<exists>i<length gs. same_user name (gs ! i)
      then 0 \<le> idx \<and> nat idx < length gs \<and> same_user name (gs ! nat idx)
             \<and> (\<forall>j<length gs. nat idx < j \<longrightarrow> \<not> same_user name (gs ! j))
      else idx = - 1)"
proof -
  from find_game_loop_result [OF assms, of name 0 "- 1"] obtain r where
    r: "find_game_loop name gs 0 (- 1) = Inr r"
    and rr: "if \<exists>i<length gs. same_user name (gs ! i)
      then \<exists>i<length gs. r = int (0 + i) \<and> same_user name (gs ! i)
             \<and> (\<forall>j<length gs. i < j \<longrightarrow> \<not> same_user name (gs ! j))
      else r = - 1" by blast
  show ?thesis
  proof (cases "\<exists>i<length gs. same_user name (gs ! i)")
    case True
    with rr obtain i where "i < length gs" "r = int i" "same_user name (gs ! i)"
      "\<forall>j<length gs. i < j \<longrightarrow> \<not> same_user name (gs ! j)" by auto
    then have "0 \<le> r \<and> nat r < length gs \<and> same_user name (gs ! nat r)
             \<and> (\<forall>j<length gs. nat r < j \<longrightarrow> \<not> same_user name (gs ! j))" by simp
    with True r show ?thesis by (simp add: find_game_def)
  next
    case False
    with rr r show ?thesis by (simp add: find_game_def)
  qed
qed

text \<open>
  Claim C9. The search compares the names in lower case, and of several games of the same
  user it finds the last: the result is the greatest index of a game of the user, or \<open>-1\<close>
  when there is none.
\<close>

theorem find_game_last_match:
  assumes "\<forall>g\<in>set games. g \<noteq> []"
  shows "\<exists>game_index. find_game name games = Inr game_index \<and>
     (if \<exists>i<length games. py_lower name = py_lower (hd (games ! i))
      then 0 \<le> game_index \<and> nat game_index < length games
             \<and> py_lower name = py_lower (hd (games ! nat game_index))
             \<and> (\<forall>j<length games. nat game_index < j \<longrightarrow>
                   py_lower name \<noteq> py_lower (hd (games ! j)))
      else game_index = - 1)"
proof -
  have su: "\<forall>i<length games.
              same_user name (games ! i) = (py_lower name = py_lower (hd (games ! i)))"
    using assms by (simp add: same_user_def)
  from find_game_result [OF assms, of name] obtain idx where
    idx: "find_game name games = Inr idx"
    and r: "if \<exists>i<length games. same_user name (games ! i)
      then 0 \<le> idx \<and> nat idx < length games \<and> same_user name (games ! nat idx)
             \<and> (\<forall>j<length games. nat idx < j \<longrightarrow> \<not> same_user name (games ! j))
      else idx = - 1" by blast
  have ex: "(\<exists>i<length games. py_lower name = py_lower (hd (games ! i)))
            = (\<exists>i<length games. same_user name (games ! i))"
    using su by blast
  show ?thesis
  proof (cases "\<exists>i<length games. same_user name (games ! i)")
    case True
    with r have a: "0 \<le> idx" "nat idx < length games" "same_user name (games ! nat idx)"
      "\<forall>j<length games. nat idx < j \<longrightarrow> \<not> same_user name (games ! j)" by simp_all
    from a(2) a(3) su have b: "py_lower name = py_lower (hd (games ! nat idx))" by blast
    from a(4) su have c: "\<forall>j<length games. nat idx < j \<longrightarrow>
                   py_lower name \<noteq> py_lower (hd (games ! j))" by blast
    from True have "\<exists>i<length games. py_lower name = py_lower (hd (games ! i))"
      unfolding ex .
    then show ?thesis using idx a(1) a(2) b c by (simp only: if_True) blast
  next
    case False
    with r have d: "idx = - 1" by simp
    from False have "\<not> (\<exists>i<length games. py_lower name = py_lower (hd (games ! i)))"
      unfolding ex .
    then show ?thesis using idx d by (simp only: if_False) blast
  qed
qed

theorem find_game_last_match_witness:
  "find_game ''Bob'' [[''alice'', ''e4 e5 ''], [''BOB'', ''d4 d5 ''], [''bob'', ''e4 c5 '']]
     = Inr 2
   \<and> py_lower ''Bob'' = py_lower (hd [''bob'', ''e4 c5 ''])
   \<and> py_lower ''Bob'' = py_lower (hd [''BOB'', ''d4 d5 ''])"
proof -
  let ?gs = "[[''alice'', ''e4 e5 ''], [''BOB'', ''d4 d5 ''], [''bob'', ''e4 c5 '']]"
  have h: "\<forall>g\<in>set ?gs. g \<noteq> []" by simp
  have "find_game ''Bob'' ?gs = Inr 2" by code_simp
  moreover have "py_lower ''Bob'' = py_lower ''bob''" "py_lower ''Bob'' = py_lower ''BOB''"
    by code_simp+
  ultimately show ?thesis using find_game_last_match [OF h, of "''Bob''"] by simp
qed

section \<open>The parts of the loop body\<close>

lemma io_bind_return: "io_bind (io_return x) f = f x"
  by (simp add: io_bind_def io_return_def split: prod.splits)

lemma io_bind_try_Inr: "io_bind (io_try (Inr x)) f = f x"
  by (simp add: io_bind_def io_try_def split: prod.splits)

lemma io_bind_try_Inl: "io_bind (io_try (Inl e)) f = ([], Inl e)"
  by (simp add: io_bind_def io_try_def)

lemma io_bind_raise: "io_bind (io_raise e) f = ([], Inl e)"
  by (simp add: io_bind_def io_raise_def)

lemma io_bind_call: "io_bind (io_call ev) f = (ev # fst (f ()), snd (f ()))"
  by (simp add: io_bind_def io_call_def split: prod.splits)

lemma io_bind_Inr: "io_bind (es, Inr x) f = (es @ fst (f x), snd (f x))"
  by (simp add: io_bind_def split: prod.splits)

lemma io_bind_Inl: "io_bind (es, Inl e) f = (es, Inl e)"
  by (simp add: io_bind_def)

lemma fst_io_return: "fst (io_return x) = []"
  by (simp add: io_return_def)

lemma snd_io_return: "snd (io_return x) = Inr x"
  by (simp add: io_return_def)

lemmas io_simps =
  io_bind_return io_bind_try_Inr io_bind_try_Inl io_bind_raise io_bind_call io_bind_Inr
  io_bind_Inl fst_io_return snd_io_return

text \<open>Writing the games file does not fail on games that have their two fields.\<close>

lemma write_loop_ok:
  "\<forall>g\<in>set gs. 2 \<le> length g \<Longrightarrow> write_loop gs acc = (acc @ map game_line gs, None)"
  by (induction gs arbitrary: acc) auto

lemma write_games_ok:
  "\<forall>g\<in>set gs. 2 \<le> length g \<Longrightarrow>
   write_games gs = ([WriteGames (map game_line gs)], Inr (map game_line gs))"
  by (simp add: write_games_def write_loop_ok)

text \<open>
  Removing the game at an index removes the first game equal to it; the reference to the game
  follows it, whether it has left the list or not.
\<close>

lemma first_index_le: "i < length xs \<Longrightarrow> first_index (xs ! i) xs \<le> i"
  unfolding first_index_def
proof (induction xs arbitrary: i)
  case Nil
  then show ?case by simp
next
  case (Cons x xs)
  then show ?case by (cases i) auto
qed

lemma remove1_nth_after:
  "first_index v xs < i \<Longrightarrow> i < length xs \<Longrightarrow> remove1 v xs ! (i - 1) = xs ! i"
  unfolding first_index_def
proof (induction xs arbitrary: i)
  case Nil
  then show ?case by simp
next
  case (Cons x xs)
  show ?case
  proof (cases "x = v")
    case True
    with Cons.prems show ?thesis by (cases i) auto
  next
    case False
    with Cons.prems obtain j where j: "i = Suc j" by (cases i) auto
    with Cons.prems False have "length (takeWhile (\<lambda>x. x \<noteq> v) xs) < j" "j < length xs" by auto
    from Cons.IH [OF this] have "remove1 v xs ! (j - 1) = xs ! j" .
    moreover from \<open>length (takeWhile (\<lambda>x. x \<noteq> v) xs) < j\<close> have "0 < j" by simp
    ultimately show ?thesis using False j by (cases j) auto
  qed
qed

lemma list_remove_InList:
  assumes "i < length gs"
  shows "\<exists>r'. list_remove gs (InList i) = Inr (remove1 (gs ! i) gs, r')
              \<and> deref (remove1 (gs ! i) gs) r' = gs ! i
              \<and> (first_index (gs ! i) gs = i \<longrightarrow> r' = Detached (gs ! i))"
proof (cases "first_index (gs ! i) gs = i")
  case True
  with assms show ?thesis by (simp add: list_remove_def deref_def Let_def)
next
  case False
  with first_index_le [OF assms] have lt: "first_index (gs ! i) gs < i" by simp
  from remove1_nth_after [OF lt assms] have "remove1 (gs ! i) gs ! (i - 1) = gs ! i" .
  with False assms show ?thesis by (simp add: list_remove_def deref_def Let_def)
qed

lemma other_games:
  assumes "one_game_per_user gs" "i < length gs" "same_user name (gs ! i)"
    and "g \<in> set (remove1 (gs ! i) gs)"
  shows "\<not> same_user name g"
proof
  assume su: "same_user name g"
  let ?f = "\<lambda>g. py_lower (hd g)"
  from assms(1) have dm: "distinct (map ?f gs)" by (simp add: one_game_per_user_def)
  then have d: "distinct gs" and inj: "inj_on ?f (set gs)" by (simp_all add: distinct_map)
  from d assms(4) have "g \<in> set gs" "g \<noteq> gs ! i" by auto
  moreover from su assms(3) have "?f g = ?f (gs ! i)" by (simp add: same_user_def)
  moreover from assms(2) have "gs ! i \<in> set gs" by simp
  ultimately show False using inj by (auto dest: inj_onD)
qed

section \<open>Resigning\<close>

text \<open>
  Claim C3. When the text of the mention holds \<open>#resign\<close> in any case, the turn is the resign
  branch and nothing else, whatever else the text holds: the game found for the user, if there
  is one, leaves the list; the reply to the resignation is posted, followed by the posts that
  end a game when there was one; the remaining games are written back unchanged. No move is
  applied and the engine is not asked. When no two games belong to the same user, no game of
  the user remains.
\<close>

theorem resign_first:
  assumes resign: "py_in ''#resign'' (py_lower (m_full_text m))"
    and wf: "\<forall>g\<in>set gs. 2 \<le> length g"
  shows "\<exists>idx gs'. find_game (m_screen_name m) gs = Inr idx
      \<and> gs' = (if idx = - 1 then gs else remove1 (gs ! nat idx) gs)
      \<and> process_mention lib m gs =
          (UpdateStatus (status_to m '' You made me work hard for that. Good game!'') (m_id m)
             # (if idx = - 1 then [] else game_over_posts m (gs ! nat idx ! 1))
             @ [WriteGames (map game_line gs')],
           Inr (gs', map game_line gs'))
      \<and> (one_game_per_user gs \<longrightarrow> (\<forall>g\<in>set gs'. \<not> same_user (m_screen_name m) g))"
proof -
  let ?name = "m_screen_name m"
  from wf have ne: "\<forall>g\<in>set gs. g \<noteq> []" by auto
  from find_game_result [OF ne, of ?name] obtain idx where
    idx: "find_game ?name gs = Inr idx"
    and r: "if \<exists>i<length gs. same_user ?name (gs ! i)
      then 0 \<le> idx \<and> nat idx < length gs \<and> same_user ?name (gs ! nat idx)
             \<and> (\<forall>j<length gs. nat idx < j \<longrightarrow> \<not> same_user ?name (gs ! j))
      else idx = - 1" by blast
  show ?thesis
  proof (cases "\<exists>i<length gs. same_user ?name (gs ! i)")
    case False
    with r have i1: "idx = - 1" by simp
    from False have none: "\<forall>g\<in>set gs. \<not> same_user ?name g"
      by (metis in_set_conv_nth)
    have "process_mention lib m gs =
          ([UpdateStatus (status_to m '' You made me work hard for that. Good game!'') (m_id m),
            WriteGames (map game_line gs)], Inr (gs, map game_line gs))"
      using resign idx i1 wf
      by (simp add: process_mention_def commands_def resign_branch_def write_games_ok io_simps)
    with idx i1 none show ?thesis by simp
  next
    case True
    with r have a: "0 \<le> idx" "nat idx < length gs" "same_user ?name (gs ! nat idx)" by simp_all
    then have i1: "idx \<noteq> - 1" by simp
    let ?v = "gs ! nat idx"
    let ?gs' = "remove1 ?v gs"
    from list_remove_InList [OF a(2)] obtain r' where
      lr: "list_remove gs (InList (nat idx)) = Inr (?gs', r')" and dr: "deref ?gs' r' = ?v"
      by blast
    have wf': "\<forall>g\<in>set ?gs'. 2 \<le> length g" using wf by (meson notin_set_remove1)
    have l2: "\<not> length ?v < 2" using wf a(2) by (simp add: not_less)
    have "process_mention lib m gs =
          (UpdateStatus (status_to m '' You made me work hard for that. Good game!'') (m_id m)
             # game_over_posts m (?v ! 1) @ [WriteGames (map game_line ?gs')],
           Inr (?gs', map game_line ?gs'))"
      using resign idx i1 lr dr l2
      by (simp add: process_mention_def commands_def resign_branch_def write_games_ok [OF wf']
            io_simps
            game_over_part_def get_moves_def game_over_posts_def)
    moreover have "one_game_per_user gs \<longrightarrow> (\<forall>g\<in>set ?gs'. \<not> same_user ?name g)"
      using other_games [OF _ a(2) a(3)] by blast
    ultimately show ?thesis using idx i1 by simp
  qed
qed

theorem resign_first_witness:
  "py_in ''#resign'' (py_lower ''@bot captures Qh4 #Resign'')
   \<and> process_mention mini_chess
         \<lparr>m_id = 106, m_screen_name = ''bob'', m_full_text = ''@bot captures Qh4 #Resign''\<rparr>
         [[''al'', ''f3 e5 ''], [''bob'', ''f3 e5 g4 '']]
       = ([UpdateStatus ''@bob You made me work hard for that. Good game!'' 106,
           UpdateStatus
             ''@bob Use this link and the following pgn to create a gif of your game! https://www.chess.com/gifs''
             106,
           UpdateStatus ''@bob f3 e5 g4 '' 106,
           WriteGames [''al,f3 e5 '' @ [CHR 0x0A]]],
          Inr ([[''al'', ''f3 e5 '']], [''al,f3 e5 '' @ [CHR 0x0A]]))"
proof -
  let ?m = "\<lparr>m_id = 106, m_screen_name = ''bob'', m_full_text = ''@bot captures Qh4 #Resign''\<rparr>"
  let ?gs = "[[''al'', ''f3 e5 ''], [''bob'', ''f3 e5 g4 '']]"
  have h1: "py_in ''#resign'' (py_lower (m_full_text ?m))" by code_simp
  have h2: "\<forall>g\<in>set ?gs. 2 \<le> length g" by simp
  have fg: "find_game ''bob'' ?gs = Inr 1" by code_simp
  have sp: "split_to_240_char ''f3 e5 g4 '' = [''f3 e5 g4 '']" by code_simp
  show ?thesis
    using h1 fg sp resign_first [OF h1 h2, of mini_chess]
    by (simp add: game_over_posts_def status_to_def game_line_def)
qed

section \<open>The events of a turn\<close>

text \<open>
  A property of events holds of all the events of a part of the loop body when it holds of the
  kinds of events that the part can cause.
\<close>

lemma io_events_bind:
  "io_events Q m \<Longrightarrow> (\<And>x. io_events Q (f x)) \<Longrightarrow> io_events Q (io_bind m f)"
proof -
  assume a: "io_events Q m" and b: "\<And>x. io_events Q (f x)"
  obtain es r where m: "m = (es, r)" by (cases m)
  show ?thesis
  proof (cases r)
    case (Inl e)
    with a m show ?thesis by (simp add: io_events_def io_bind_def)
  next
    case (Inr x)
    obtain es' r' where f: "f x = (es', r')" by (cases "f x")
    from b [of x] f have "\<forall>ev\<in>set es'. Q ev" by (simp add: io_events_def)
    with a m Inr f show ?thesis by (auto simp: io_events_def io_bind_def)
  qed
qed

lemma io_events_return [simp]: "io_events Q (io_return x)"
  by (simp add: io_events_def io_return_def)

lemma io_events_raise [simp]: "io_events Q (io_raise e)"
  by (simp add: io_events_def io_raise_def)

lemma io_events_try [simp]: "io_events Q (io_try r)"
  by (simp add: io_events_def io_try_def)

lemma io_events_call [simp]: "io_events Q (io_call ev) = Q ev"
  by (simp add: io_events_def io_call_def)

lemma io_events_pair [simp]: "io_events Q (es, r) = (\<forall>ev\<in>set es. Q ev)"
  by (simp add: io_events_def)

lemma resign_branch_events:
  assumes "\<And>s i. Q (UpdateStatus s i)"
  shows "io_events Q (resign_branch m gs idx)"
  unfolding resign_branch_def
  by (intro io_events_bind) (auto simp: assms intro!: io_events_bind split: prod.splits)

lemma error_branch_events:
  assumes "\<And>a b. Q (SendEmail a b)"
  shows "io_events Q (error_branch m gs)"
  unfolding error_branch_def Let_def
  by (intro io_events_bind) (auto simp: assms)

lemma possiblemoves_branch_events:
  assumes "\<And>s i. Q (UpdateWithMedia s i)"
  shows "io_events Q (possiblemoves_branch lib m gs idx)"
  unfolding possiblemoves_branch_def
  by (intro io_events_bind) (auto simp: assms intro!: io_events_bind)

lemma getpgn_branch_events:
  assumes "\<And>s i. Q (UpdateStatus s i)"
  shows "io_events Q (getpgn_branch m gs idx)"
  unfolding getpgn_branch_def
  by (intro io_events_bind) (auto simp: assms intro!: io_events_bind)

lemma nostart_branch_events:
  assumes "\<And>s i. Q (UpdateStatus s i)"
  shows "io_events Q (nostart_branch m gs)"
  unfolding nostart_branch_def
  by (intro io_events_bind) (auto simp: assms)

lemma startgame_branch_events: "io_events Q (startgame_branch m gs idx)"
  unfolding startgame_branch_def
  by (auto intro!: io_events_bind split: prod.splits)

lemma commands_events:
  assumes "\<And>s i. Q (UpdateStatus s i)" "\<And>s i. Q (UpdateWithMedia s i)"
    "\<And>a b. Q (SendEmail a b)"
  shows "io_events Q (commands lib m gs idx)"
  unfolding commands_def Let_def
  by (simp add: assms resign_branch_events error_branch_events possiblemoves_branch_events
        getpgn_branch_events nostart_branch_events startgame_branch_events)

lemma remove_curr_events: "io_events Q (remove_curr v)"
  unfolding remove_curr_def
  by (auto intro!: io_events_bind split: option.splits prod.splits)

lemma bot_reply_events:
  assumes "\<And>h. Q (ApplyBotMove h)"
  shows "io_events Q (bot_reply lib mh)"
  unfolding bot_reply_def
  by (intro io_events_bind) (auto simp: assms)

lemma player_moved_events:
  assumes "\<And>s i. Q (UpdateWithMedia s i)" "\<And>h. Q (ApplyBotMove h)"
  shows "io_events Q (player_moved lib m v mh)"
  unfolding player_moved_def
  by (intro io_events_bind)
     (auto simp: assms remove_curr_events bot_reply_events intro!: io_events_bind
           split: prod.splits)

lemma play_events:
  assumes "\<And>s i. Q (UpdateWithMedia s i)" "\<And>h. Q (ApplyBotMove h)"
  shows "io_events Q (play lib m v mh)"
  unfolding play_def Let_def
  by (auto simp: assms player_moved_events bot_reply_events intro!: io_events_bind
           split: prod.splits)

lemma update_game_events: "io_events Q (update_game v mh)"
  unfolding update_game_def
  by (auto simp: remove_curr_events intro!: io_events_bind split: option.splits prod.splits)

lemma move_part_events:
  assumes "\<And>s i. Q (UpdateWithMedia s i)" "\<And>h. Q (ApplyBotMove h)"
  shows "io_events Q (move_part lib m v)"
  unfolding move_part_def
  by (auto simp: assms play_events update_game_events intro!: io_events_bind
           split: option.splits prod.splits)

lemma game_over_part_events:
  assumes "\<And>s i. Q (UpdateStatus s i)"
  shows "io_events Q (game_over_part m v)"
  unfolding game_over_part_def game_over_posts_def
  by (auto simp: assms intro!: io_events_bind split: option.splits)

lemma write_games_events:
  assumes "\<And>w. Q (WriteGames w)"
  shows "io_events Q (write_games gs)"
  unfolding write_games_def
  by (auto simp: assms split: prod.splits option.splits)

lemma process_mention_events:
  assumes "\<And>s i. Q (UpdateStatus s i)" "\<And>s i. Q (UpdateWithMedia s i)"
    "\<And>a b. Q (SendEmail a b)" "\<And>h. Q (ApplyBotMove h)" "\<And>w. Q (WriteGames w)"
  shows "io_events Q (process_mention lib m gs)"
  unfolding process_mention_def
  by (auto simp: assms commands_events move_part_events game_over_part_events
        write_games_events intro!: io_events_bind)

section \<open>Two turns on the small library\<close>

text \<open>
  A user starts a game with the move f3 and the engine answers e5; a user without a game
  greets the program while the games file holds a line without a comma.
\<close>

lemma start_f3_text:
  "\<not> py_in ''#resign'' (py_lower ''@bot #startgame captures f3'')"
  "\<not> py_in ''#error'' (py_lower ''@bot #startgame captures f3'')"
  "\<not> py_in ''#possiblemoves'' (py_lower ''@bot #startgame captures f3'')"
  "\<not> py_in ''#getpgn'' (py_lower ''@bot #startgame captures f3'')"
  "py_in ''#startgame'' (py_lower ''@bot #startgame captures f3'')"
  "extract_move ''@bot #startgame captures f3'' = ''f3''"
  by code_simp+

lemma mini_strings: "py_split '''' = []" "pgn_list_to_string [''f3'', ''e5''] = ''f3 e5 ''"
  by code_simp+

lemma mini_bot_e5: "apply_bot_move mini_chess [''f3''] = Inr (''e5'', [''f3'', ''e5''])"
proof -
  have "re_search_move (''<PlayResult at 0x7f3a (move='' @ ''e7e5''
          @ '', ponder=None, info={}, draw_offered=False, resigned=False)>'') = Some ''e7e5''"
    by code_simp
  then show ?thesis
    by (simp add: apply_bot_move_def push_pgn_def mini_chess_def mini_sans_def mini_uci_def)
qed

lemma mini_player_f3: "apply_player_move mini_chess [] ''f3'' = Inr (True, [''f3''])"
  by (simp add: apply_player_move_def possible_moves_eq push_pgn_def py_split_sep_def
        mini_chess_def mini_sans_def)

lemma mini_replay: "push_pgn mini_chess [''f3''] = Inr 1" "push_pgn mini_chess [''f3'', ''e5''] = Inr 2"
  "is_checkmate mini_chess b = (b = 4)"
  by (simp_all add: push_pgn_def mini_chess_def mini_sans_def)

lemma turn_start_f3:
  "process_mention mini_chess
     \<lparr>m_id = 105, m_screen_name = ''bob'', m_full_text = ''@bot #startgame captures f3''\<rparr> []
   = ([ApplyBotMove [''f3''], UpdateWithMedia ''@bob e5'' 105,
       WriteGames [''bob,f3 e5 '' @ [CHR 0x0A]]],
      Inr ([[''bob'', ''f3 e5 '']], [''bob,f3 e5 '' @ [CHR 0x0A]]))"
  by (simp add: io_simps process_mention_def find_game_def commands_def start_f3_text
        startgame_branch_def
        move_part_def get_moves_def deref_def mini_strings play_def mini_player_f3 player_moved_def mini_replay bot_reply_def
        mini_bot_e5 update_game_def set_moves_def write_games_def game_line_def status_to_def Let_def
        io_try_def io_return_def io_call_def)

lemma hello_text:
  "\<not> py_in ''#resign'' (py_lower ''@bot hello'')"
  "\<not> py_in ''#error'' (py_lower ''@bot hello'')"
  "\<not> py_in ''#possiblemoves'' (py_lower ''@bot hello'')"
  "\<not> py_in ''#getpgn'' (py_lower ''@bot hello'')"
  "\<not> py_in ''#startgame'' (py_lower ''@bot hello'')"
  "load_games [''x''] = [[''x'']]"
  "find_game ''al'' [[''x'']] = Inr (- 1)"
  by code_simp+

lemma turn_hello:
  "process_mention mini_chess
     \<lparr>m_id = 106, m_screen_name = ''al'', m_full_text = ''@bot hello''\<rparr> [[''x'']]
   = ([UpdateStatus ''@al Include #startgame if you would like to start a game.'' 106,
       WriteGames []],
      Inl IndexError)"
  by (simp add: io_simps process_mention_def commands_def hello_text nostart_branch_def
        write_games_def status_to_def Let_def io_try_def io_return_def io_call_def)

section \<open>The cursor\<close>

lemma stored_ids_append: "stored_ids (xs @ ys) = stored_ids xs @ stored_ids ys"
  by (induction xs rule: stored_ids.induct) auto

lemma stored_ids_none: "\<forall>ev\<in>set es. \<not> is_store_id ev \<Longrightarrow> stored_ids es = []"
  by (induction es rule: stored_ids.induct) auto

lemma main_body_stores_nothing: "stored_ids (fst (main_body lib m gamefile)) = []"
proof -
  have "io_events (\<lambda>ev. \<not> is_store_id ev) (process_mention lib m (load_games gamefile))"
    by (rule process_mention_events) simp_all
  then show ?thesis
    by (simp add: main_body_def io_events_def stored_ids_none)
qed

lemma main_loop_cursor:
  "\<exists>n. n \<le> length ms \<and> (ms \<noteq> [] \<longrightarrow> 0 < n)
     \<and> (snd (main_loop lib gamefile k ms) = None \<longrightarrow> n = length ms)
     \<and> stored_ids (fst (main_loop lib gamefile k ms)) = map m_id (take n ms)
     \<and> (\<forall>j<n. \<exists>pre post.
            fst (main_loop lib gamefile k ms)
              = pre @ StoreLastSeenId (m_id (ms ! j))
                  # fst (main_body lib (ms ! j) (gamefile (k + j))) @ post
            \<and> stored_ids pre = map m_id (take j ms))"
proof (induction ms arbitrary: k)
  case Nil
  show ?case by simp
next
  case (Cons m ms)
  obtain es r where body: "main_body lib m (gamefile k) = (es, r)"
    by (cases "main_body lib m (gamefile k)")
  have none: "stored_ids es = []"
    using main_body_stores_nothing [of lib m "gamefile k"] body by simp
  show ?case
  proof (cases r)
    case (Inl e)
    then have res: "main_loop lib gamefile k (m # ms) = (StoreLastSeenId (m_id m) # es, Some e)"
      using body by simp
    have c1: "Suc 0 \<le> length (m # ms)" by simp
    have c2: "m # ms \<noteq> [] \<longrightarrow> 0 < Suc 0" by simp
    have c3: "snd (main_loop lib gamefile k (m # ms)) = None \<longrightarrow> Suc 0 = length (m # ms)"
      unfolding res by simp
    have c4: "stored_ids (fst (main_loop lib gamefile k (m # ms)))
               = map m_id (take (Suc 0) (m # ms))"
      unfolding res using none by simp
    have c5: "\<forall>j<Suc 0. \<exists>pre post.
            fst (main_loop lib gamefile k (m # ms))
              = pre @ StoreLastSeenId (m_id ((m # ms) ! j))
                  # fst (main_body lib ((m # ms) ! j) (gamefile (k + j))) @ post
            \<and> stored_ids pre = map m_id (take j (m # ms))"
    proof (intro allI impI)
      fix j :: nat
      assume "j < Suc 0"
      then have j: "j = 0" by simp
      show "\<exists>pre post.
            fst (main_loop lib gamefile k (m # ms))
              = pre @ StoreLastSeenId (m_id ((m # ms) ! j))
                  # fst (main_body lib ((m # ms) ! j) (gamefile (k + j))) @ post
            \<and> stored_ids pre = map m_id (take j (m # ms))"
        unfolding j res
        by (rule exI [of _ "[]"], rule exI [of _ "[]"]) (simp add: body)
    qed
    from c1 c2 c3 c4 c5 show ?thesis by (intro exI [of _ "Suc 0"] conjI)
  next
    case (Inr x)
    obtain es' r' where rest: "main_loop lib gamefile (Suc k) ms = (es', r')"
      by (cases "main_loop lib gamefile (Suc k) ms")
    have res: "main_loop lib gamefile k (m # ms) = (StoreLastSeenId (m_id m) # es @ es', r')"
      using body Inr rest by simp
    have "\<exists>n. n \<le> length ms \<and> (ms \<noteq> [] \<longrightarrow> 0 < n)
     \<and> (r' = None \<longrightarrow> n = length ms)
     \<and> stored_ids es' = map m_id (take n ms)
     \<and> (\<forall>j<n. \<exists>pre post.
            es' = pre @ StoreLastSeenId (m_id (ms ! j))
                  # fst (main_body lib (ms ! j) (gamefile (Suc k + j))) @ post
            \<and> stored_ids pre = map m_id (take j ms))"
      using Cons.IH [of "Suc k"] unfolding rest fst_conv snd_conv .
    then obtain n where
      n: "n \<le> length ms" "r' = None \<longrightarrow> n = length ms"
        "stored_ids es' = map m_id (take n ms)"
      and bl: "\<forall>j<n. \<exists>pre post.
            es' = pre @ StoreLastSeenId (m_id (ms ! j))
                  # fst (main_body lib (ms ! j) (gamefile (Suc k + j))) @ post
            \<and> stored_ids pre = map m_id (take j ms)"
      by (elim exE conjE)
    have c1: "Suc n \<le> length (m # ms)" using n(1) by simp
    have c2: "m # ms \<noteq> [] \<longrightarrow> 0 < Suc n" by simp
    have c3: "snd (main_loop lib gamefile k (m # ms)) = None \<longrightarrow> Suc n = length (m # ms)"
      unfolding res using n(2) by simp
    have c4: "stored_ids (fst (main_loop lib gamefile k (m # ms)))
               = map m_id (take (Suc n) (m # ms))"
      unfolding res using none n(3) by (simp add: stored_ids_append)
    have c5: "\<forall>j<Suc n. \<exists>pre post.
            fst (main_loop lib gamefile k (m # ms))
              = pre @ StoreLastSeenId (m_id ((m # ms) ! j))
                  # fst (main_body lib ((m # ms) ! j) (gamefile (k + j))) @ post
            \<and> stored_ids pre = map m_id (take j (m # ms))"
    proof (intro allI impI)
      fix j
      assume j: "j < Suc n"
      show "\<exists>pre post.
            fst (main_loop lib gamefile k (m # ms))
              = pre @ StoreLastSeenId (m_id ((m # ms) ! j))
                  # fst (main_body lib ((m # ms) ! j) (gamefile (k + j))) @ post
            \<and> stored_ids pre = map m_id (take j (m # ms))"
      proof (cases j)
        case 0
        show ?thesis
          unfolding 0 res
          by (rule exI [of _ "[]"], rule exI [of _ es']) (simp add: body)
      next
        case (Suc i)
        with j have "i < n" by simp
        with bl obtain pre post where
          p: "es' = pre @ StoreLastSeenId (m_id (ms ! i))
                  # fst (main_body lib (ms ! i) (gamefile (Suc k + i))) @ post"
            and q: "stored_ids pre = map m_id (take i ms)"
          by blast
        have e: "StoreLastSeenId (m_id m) # es @ es'
                 = (StoreLastSeenId (m_id m) # es @ pre) @ StoreLastSeenId (m_id (ms ! i))
                  # fst (main_body lib (ms ! i) (gamefile (Suc k + i))) @ post"
          by (subst p) simp
        have f: "stored_ids (StoreLastSeenId (m_id m) # es @ pre) = m_id m # map m_id (take i ms)"
          using none q by (simp add: stored_ids_append)
        show ?thesis
          unfolding Suc res
          by (rule exI [of _ "StoreLastSeenId (m_id m) # es @ pre"], rule exI [of _ post])
             (use e f in simp)
      qed
    qed
    from c1 c2 c3 c4 c5 show ?thesis by (intro exI [of _ "Suc n"] conjI)
  qed
qed

text \<open>
  Claim C8. In a cycle the mentions are taken oldest first, in the reverse of the order in
  which the platform lists them. A number \<open>n\<close> of them is reached: all of them when the cycle
  ends without an exception, and at least the first when there is one. The identifiers stored
  during the cycle are those of the mentions reached, one for each and in that order; the
  identifier of a mention is stored after the events of the mentions before it and before the
  events of its own body, so it is stored also when that body raises. When the identifiers
  ascend from the oldest mention to the newest, as the platform assigns them, the stored
  cursor never decreases during the cycle, also counted from the value \<open>last_seen_id\<close> it had
  before the cycle, which the platform was asked to stay above.
\<close>

theorem cursor_stored_per_mention:
  "\<exists>n. n \<le> length mentions \<and> (mentions \<noteq> [] \<longrightarrow> 0 < n)
     \<and> (snd (main lib gamefile mentions) = None \<longrightarrow> n = length mentions)
     \<and> stored_ids (fst (main lib gamefile mentions)) = map m_id (take n (rev mentions))
     \<and> (\<forall>j<n. \<exists>pre post.
            fst (main lib gamefile mentions)
              = pre @ StoreLastSeenId (m_id (rev mentions ! j))
                  # fst (main_body lib (rev mentions ! j) (gamefile j)) @ post
            \<and> stored_ids pre = map m_id (take j (rev mentions)))
     \<and> (sorted (map m_id (rev mentions))
          \<longrightarrow> sorted (stored_ids (fst (main lib gamefile mentions))))
     \<and> (sorted (last_seen_id # map m_id (rev mentions))
          \<longrightarrow> sorted (last_seen_id # stored_ids (fst (main lib gamefile mentions))))"
proof -
  have "\<exists>n. n \<le> length mentions \<and> (mentions \<noteq> [] \<longrightarrow> 0 < n)
     \<and> (snd (main lib gamefile mentions) = None \<longrightarrow> n = length mentions)
     \<and> stored_ids (fst (main lib gamefile mentions)) = map m_id (take n (rev mentions))
     \<and> (\<forall>j<n. \<exists>pre post.
            fst (main lib gamefile mentions)
              = pre @ StoreLastSeenId (m_id (rev mentions ! j))
                  # fst (main_body lib (rev mentions ! j) (gamefile j)) @ post
            \<and> stored_ids pre = map m_id (take j (rev mentions)))"
    using main_loop_cursor [of "rev mentions" lib gamefile 0]
    unfolding main_def by (simp only: length_rev rev_is_Nil_conv add_0)
  then obtain n where
    n: "n \<le> length mentions" "mentions \<noteq> [] \<longrightarrow> 0 < n"
      "snd (main lib gamefile mentions) = None \<longrightarrow> n = length mentions"
      "stored_ids (fst (main lib gamefile mentions)) = map m_id (take n (rev mentions))"
    and bl: "\<forall>j<n. \<exists>pre post.
            fst (main lib gamefile mentions)
              = pre @ StoreLastSeenId (m_id (rev mentions ! j))
                  # fst (main_body lib (rev mentions ! j) (gamefile j)) @ post
            \<and> stored_ids pre = map m_id (take j (rev mentions))"
    by (elim exE conjE)
  have s1: "sorted (map m_id (rev mentions))
            \<longrightarrow> sorted (stored_ids (fst (main lib gamefile mentions)))"
    unfolding n(4) using sorted_wrt_take [of "(\<le>)" "map m_id (rev mentions)" n]
    by (simp add: take_map)
  have s2: "sorted (last_seen_id # map m_id (rev mentions))
          \<longrightarrow> sorted (last_seen_id # stored_ids (fst (main lib gamefile mentions)))"
    unfolding n(4)
    using sorted_wrt_take [of "(\<le>)" "last_seen_id # map m_id (rev mentions)" "Suc n"]
    by (simp add: take_map)
  from n bl s1 s2 show ?thesis by (intro exI [of _ n] conjI)
qed

theorem cursor_stored_per_mention_witness:
  "main mini_chess (\<lambda>k. if k = 0 then [] else [''x''])
     [\<lparr>m_id = 106, m_screen_name = ''al'', m_full_text = ''@bot hello''\<rparr>,
      \<lparr>m_id = 105, m_screen_name = ''bob'', m_full_text = ''@bot #startgame captures f3''\<rparr>]
     = ([StoreLastSeenId 105, ApplyBotMove [''f3''], UpdateWithMedia ''@bob e5'' 105,
         WriteGames [''bob,f3 e5 '' @ [CHR 0x0A]],
         StoreLastSeenId 106,
         UpdateStatus ''@al Include #startgame if you would like to start a game.'' 106,
         WriteGames []],
        Some IndexError)
   \<and> sorted [104, 105, 106 :: int]
   \<and> sorted (104 # stored_ids (fst (main mini_chess (\<lambda>k. if k = 0 then [] else [''x''])
     [\<lparr>m_id = 106, m_screen_name = ''al'', m_full_text = ''@bot hello''\<rparr>,
      \<lparr>m_id = 105, m_screen_name = ''bob'', m_full_text = ''@bot #startgame captures f3''\<rparr>])))"
proof -
  have l0: "load_games [] = []" by (simp add: load_games_def)
  let ?gf = "\<lambda>k::nat. if k = 0 then [] else [''x'']"
  let ?ms = "[\<lparr>m_id = 106, m_screen_name = ''al'', m_full_text = ''@bot hello''\<rparr>,
      \<lparr>m_id = 105, m_screen_name = ''bob'', m_full_text = ''@bot #startgame captures f3''\<rparr>]"
  have ev: "main mini_chess ?gf ?ms
     = ([StoreLastSeenId 105, ApplyBotMove [''f3''], UpdateWithMedia ''@bob e5'' 105,
         WriteGames [''bob,f3 e5 '' @ [CHR 0x0A]],
         StoreLastSeenId 106,
         UpdateStatus ''@al Include #startgame if you would like to start a game.'' 106,
         WriteGames []],
        Some IndexError)"
    by (simp add: main_def main_body_def l0 hello_text turn_start_f3 turn_hello)
  have so: "sorted (104 # map m_id (rev ?ms))" by simp
  have "sorted (104 # stored_ids (fst (main mini_chess ?gf ?ms)))"
    using cursor_stored_per_mention [of ?ms mini_chess ?gf 104] so by blast
  with ev show ?thesis by simp
qed

section \<open>The invariant of the store\<close>

text \<open>
  What holds of the result of a part that ends without an exception is followed through the
  parts of the loop body.
\<close>

lemma io_post_bind:
  "io_post P m \<Longrightarrow> (\<And>x. P x \<Longrightarrow> io_post Q (f x)) \<Longrightarrow> io_post Q (io_bind m f)"
proof -
  assume a: "io_post P m" and b: "\<And>x. P x \<Longrightarrow> io_post Q (f x)"
  obtain es r where m: "m = (es, r)" by (cases m)
  show ?thesis
  proof (cases r)
    case (Inl e)
    with m show ?thesis by (simp add: io_post_def io_bind_def)
  next
    case (Inr x)
    with a m have "P x" by (simp add: io_post_def)
    from b [OF this] have "io_post Q (f x)" .
    then show ?thesis using m Inr
      by (cases "f x") (auto simp: io_post_def io_bind_def)
  qed
qed

lemma io_post_return [simp]: "io_post P (io_return x) = P x"
  by (simp add: io_post_def io_return_def)

lemma io_post_raise [simp]: "io_post P (io_raise e)"
  by (simp add: io_post_def io_raise_def)

lemma io_post_try [simp]: "io_post P (io_try r) = (\<forall>x. r = Inr x \<longrightarrow> P x)"
  by (auto simp: io_post_def io_try_def)

lemma io_post_call [simp]: "io_post P (io_call ev) = P ()"
  by (simp add: io_post_def io_call_def)

lemma io_post_pair [simp]: "io_post P (es, r) = (\<forall>x. r = Inr x \<longrightarrow> P x)"
  by (auto simp: io_post_def)

lemma io_post_bind_try:
  "(\<And>x. r = Inr x \<Longrightarrow> io_post Q (f x)) \<Longrightarrow> io_post Q (io_bind (io_try r) f)"
  by (rule io_post_bind [where P = "\<lambda>x. r = Inr x"]) simp_all

lemma io_post_bind_call: "io_post Q (f ()) \<Longrightarrow> io_post Q (io_bind (io_call ev) f)"
  by (rule io_post_bind [where P = "\<lambda>_. True"]) simp_all

lemma split_ws_words:
  "\<forall>c\<in>set w. \<not> is_space c \<Longrightarrow>
   \<forall>t\<in>set (split_ws w s). t \<noteq> [] \<and> (\<forall>c\<in>set t. \<not> is_space c)"
proof (induction s arbitrary: w)
  case Nil
  then show ?case by simp
next
  case (Cons a s)
  show ?case
  proof (cases "is_space a")
    case True
    from Cons.IH [of "[]"]
    have "\<forall>t\<in>set (split_ws [] s). t \<noteq> [] \<and> (\<forall>c\<in>set t. \<not> is_space c)" by simp
    with True Cons.prems show ?thesis by simp
  next
    case False
    with Cons.prems have "\<forall>c\<in>set (w @ [a]). \<not> is_space c" by simp
    from Cons.IH [OF this] False show ?thesis by simp
  qed
qed

lemma py_split_words: "words_ok (py_split s)"
  using split_ws_words [of "[]" s] by (simp add: words_ok_def py_split_def)

lemma store_inv_remove1: "store_inv lib gs \<Longrightarrow> store_inv lib (remove1 v gs)"
  unfolding store_inv_def by (meson notin_set_remove1)

lemma store_inv_update:
  assumes "store_inv lib gs" "2 \<le> length g" "push_pgn lib (py_split s) = Inr b"
  shows "store_inv lib (gs[i := g[1 := s]])"
proof -
  have "set (gs[i := g[1 := s]]) \<subseteq> insert (g[1 := s]) (set gs)" by (rule set_update_subset_insert)
  moreover have "2 \<le> length (g[1 := s]) \<and> (\<exists>b. push_pgn lib (py_split (g[1 := s] ! 1)) = Inr b)"
    using assms(2,3) by simp
  ultimately show ?thesis using assms(1) unfolding store_inv_def by blast
qed

lemma py_split_empty: "py_split [] = []"
  by (simp add: py_split_def)

lemma push_pgn_empty: "push_pgn lib [] = Inr (new_board lib)"
  by (simp add: push_pgn_def)

lemma list_remove_inv:
  "store_inv lib gs \<Longrightarrow> list_remove gs r = Inr (gs', r') \<Longrightarrow> store_inv lib gs'"
  by (auto simp: list_remove_def Let_def store_inv_remove1 split: if_splits)

lemma set_moves_inv:
  assumes "store_inv lib gs" "set_moves gs r s = Inr (gs', r')" "push_pgn lib (py_split s) = Inr b"
  shows "store_inv lib gs'"
proof (cases r)
  case (InList i)
  with assms(2) have "2 \<le> length (gs ! i)" "gs' = gs[i := (gs ! i)[1 := s]]"
    by (auto simp: set_moves_def Let_def deref_def split: if_splits)
  with store_inv_update [OF assms(1) _ assms(3)] show ?thesis by simp
next
  case (Detached g)
  with assms(1,2) show ?thesis
    by (auto simp: set_moves_def Let_def deref_def split: if_splits)
qed

lemma commands_inv:
  assumes "store_inv lib gs"
  shows "io_post (\<lambda>v. store_inv lib (list_of_games v)) (commands lib m gs idx)"
proof -
  have app: "store_inv lib (gs @ [[m_screen_name m, '''']])"
    using assms by (auto simp: store_inv_def py_split_empty push_pgn_empty)
  have r: "io_post (\<lambda>v. store_inv lib (list_of_games v)) (resign_branch m gs idx)"
    unfolding resign_branch_def
    by (rule io_post_bind [where P = "\<lambda>v. store_inv lib (list_of_games v)"])
       (auto simp: assms intro!: io_post_bind_try io_post_bind_call
             dest: list_remove_inv [OF assms])
  have e: "io_post (\<lambda>v. store_inv lib (list_of_games v)) (error_branch m gs)"
    unfolding error_branch_def Let_def
    by (auto simp: assms intro!: io_post_bind_call)
  have p: "io_post (\<lambda>v. store_inv lib (list_of_games v)) (possiblemoves_branch lib m gs idx)"
    unfolding possiblemoves_branch_def
    by (rule io_post_bind [where P = "\<lambda>_. True"])
       (auto simp: assms intro!: io_post_bind_try io_post_bind_call)
  have g: "io_post (\<lambda>v. store_inv lib (list_of_games v)) (getpgn_branch m gs idx)"
    unfolding getpgn_branch_def
    by (rule io_post_bind [where P = "\<lambda>_. True"])
       (auto simp: assms intro!: io_post_bind_try io_post_bind_call)
  have n: "io_post (\<lambda>v. store_inv lib (list_of_games v)) (nostart_branch m gs)"
    unfolding nostart_branch_def
    by (auto simp: assms intro!: io_post_bind_call)
  have sm: "store_inv lib gs'" if "set_moves gs r [] = Inr (gs', r')" for r gs' r'
    using set_moves_inv [OF assms that] by (simp add: py_split_empty push_pgn_empty)
  have s: "io_post (\<lambda>v. store_inv lib (list_of_games v)) (startgame_branch m gs idx)"
    unfolding startgame_branch_def
    by (auto simp: app intro!: io_post_bind_try dest: sm)
  show ?thesis
    unfolding commands_def Let_def using r e p g n s assms by simp
qed

lemma remove_curr_inv:
  "store_inv lib (list_of_games v) \<Longrightarrow>
   io_post (\<lambda>v'. store_inv lib (list_of_games v')) (remove_curr v)"
  unfolding remove_curr_def
  by (auto intro!: io_post_bind_try dest: list_remove_inv split: option.splits)

lemma remove_curr_bind:
  "store_inv lib (list_of_games v) \<Longrightarrow>
   (\<And>v'. store_inv lib (list_of_games v') \<Longrightarrow> io_post Q (f v')) \<Longrightarrow>
   io_post Q (io_bind (remove_curr v) f)"
  by (rule io_post_bind [OF remove_curr_inv])

lemma san_token_word: "san_token t \<Longrightarrow> t \<noteq> [] \<and> (\<forall>c\<in>set t. \<not> is_space c)"
  using san_token_chars [of t] by simp

lemma apply_player_move_words:
  assumes "library_ok lib" "words_ok mh" "move \<noteq> []"
    and "apply_player_move lib mh move = Inr (ok, mh')"
  shows "words_ok mh'"
proof -
  from assms(4) obtain board where b: "push_pgn lib mh = Inr board"
    by (auto simp: apply_player_move_def split: sum.splits)
  from assms(1) have tok: "\<forall>t\<in>set (legal_sans lib board). san_token t"
    by (simp add: library_ok_def)
  show ?thesis
  proof (cases "move \<in> set (legal_sans lib board)")
    case True
    with tok have "san_token move" by blast
    from san_token_word [OF this] assms(2,4) b True show ?thesis
      by (auto simp: apply_player_move_def possible_moves_tokens [OF tok] words_ok_def
               split: if_splits)
  next
    case False
    with assms(2,3,4) b show ?thesis
      by (auto simp: apply_player_move_def possible_moves_tokens [OF tok] split: if_splits)
  qed
qed

lemma apply_bot_move_words:
  assumes "library_ok lib" "words_ok mh" "apply_bot_move lib mh = Inr (bm, mh')"
  shows "words_ok mh'"
proof -
  from assms(3) obtain board uci where "san_of_uci lib board uci = Inr bm" "mh' = mh @ [bm]"
    by (auto simp: apply_bot_move_def split: option.splits sum.splits)
  moreover from this assms(1) have "san_token bm" by (auto simp: library_ok_def)
  ultimately show ?thesis using assms(2) san_token_word [of bm] by (auto simp: words_ok_def)
qed

lemma bot_reply_bind:
  assumes "library_ok lib" "words_ok mh"
    and "\<And>bm mh'. words_ok mh' \<Longrightarrow> io_post Q (f (bm, mh'))"
  shows "io_post Q (io_bind (bot_reply lib mh) f)"
proof (rule io_post_bind [where P = "\<lambda>(bm, mh'). words_ok mh'"])
  show "io_post (\<lambda>(bm, mh'). words_ok mh') (bot_reply lib mh)"
    unfolding bot_reply_def
    by (auto intro!: io_post_bind_call dest: apply_bot_move_words [OF assms(1,2)])
next
  fix x :: "string \<times> string list"
  assume "case x of (bm, mh') \<Rightarrow> words_ok mh'"
  then show "io_post Q (f x)" using assms(3) by (cases x) simp
qed

lemma player_moved_post:
  assumes "library_ok lib" "store_inv lib (list_of_games v)" "words_ok mh"
  shows "io_post (\<lambda>(v1, mh1). store_inv lib (list_of_games v1) \<and> words_ok mh1
                     \<and> (\<exists>b. push_pgn lib mh1 = Inr b))
           (player_moved lib m v mh)"
  unfolding player_moved_def
  by (auto simp: assms
           intro!: io_post_bind_try io_post_bind_call remove_curr_bind [where lib = lib]
                   bot_reply_bind [OF assms(1)])

lemma play_post:
  assumes "library_ok lib" "store_inv lib (list_of_games v)" "words_ok mh"
  shows "io_post (\<lambda>(v1, mh1). store_inv lib (list_of_games v1) \<and> words_ok mh1
                     \<and> (\<exists>b. push_pgn lib mh1 = Inr b))
           (play lib m v mh)"
proof -
  let ?P = "\<lambda>(v1, mh1). store_inv lib (list_of_games v1) \<and> words_ok mh1
                     \<and> (\<exists>b. push_pgn lib mh1 = Inr b)"
  have moved: "io_post ?P (player_moved lib m v mh')" if "words_ok mh'" for mh'
    using player_moved_post [OF assms(1,2) that] .
  have tried: "io_post ?P
      (io_bind (io_try (apply_player_move lib mh mv))
         (\<lambda>(applied, move_history').
             if applied then player_moved lib m v move_history'
             else io_bind (io_try (push_pgn lib move_history'))
                    (\<lambda>_. io_bind
                       (io_call (UpdateWithMedia
                          (status_to m
                             '' That move is invalid. If you would to see a list of valid moves, use the #possiblemoves'')
                          (m_id m)))
                       (\<lambda>_. io_return (v, move_history')))))"
    if mv: "mv \<noteq> []" for mv
  proof (rule io_post_bind_try)
    fix x
    assume x: "apply_player_move lib mh mv = Inr x"
    obtain ok mh' where xx: "x = (ok, mh')" by (cases x)
    from apply_player_move_words [OF assms(1,3) mv] x xx have w: "words_ok mh'" by simp
    show "io_post ?P
           (case x of (applied, move_history') \<Rightarrow>
             if applied then player_moved lib m v move_history'
             else io_bind (io_try (push_pgn lib move_history'))
                    (\<lambda>_. io_bind
                       (io_call (UpdateWithMedia
                          (status_to m
                             '' That move is invalid. If you would to see a list of valid moves, use the #possiblemoves'')
                          (m_id m)))
                       (\<lambda>_. io_return (v, move_history'))))"
      unfolding xx using w moved [OF w]
      by (auto simp: assms intro!: io_post_bind_try io_post_bind_call)
  qed
  show ?thesis
    unfolding play_def Let_def
    by (auto simp: assms tried
             intro!: io_post_bind_try io_post_bind_call bot_reply_bind [OF assms(1)])
qed

lemma update_game_post:
  assumes "store_inv lib (list_of_games v)" "words_ok mh" "push_pgn lib mh = Inr b"
  shows "io_post (\<lambda>v'. store_inv lib (list_of_games v')) (update_game v mh)"
proof -
  have again: "py_split (pgn_list_to_string mh) = mh"
    using assms(2) by (intro py_split_pgn_list_to_string) (simp add: words_ok_def)
  have sm: "store_inv lib gs'"
    if "set_moves (list_of_games v) r (pgn_list_to_string mh) = Inr (gs', r')" for r gs' r'
    using set_moves_inv [OF assms(1) that] assms(3) by (simp add: again)
  show ?thesis
    unfolding update_game_def
    by (auto simp: remove_curr_inv [OF assms(1)] intro!: io_post_bind_try dest: sm
             split: option.splits)
qed

lemma move_part_post:
  assumes "library_ok lib" "store_inv lib (list_of_games v)"
  shows "io_post (\<lambda>v'. store_inv lib (list_of_games v')) (move_part lib m v)"
proof (cases "curr_game v")
  case None
  then show ?thesis by (simp add: move_part_def)
next
  case (Some r)
  have "io_post (\<lambda>v'. store_inv lib (list_of_games v'))
          (io_bind (play lib m v (py_split moves)) (\<lambda>(v', move_history). update_game v' move_history))"
    for moves
    by (rule io_post_bind [OF play_post [OF assms py_split_words]])
       (auto intro: update_game_post)
  then show ?thesis
    unfolding move_part_def Some by (auto intro!: io_post_bind_try)
qed

lemma store_inv_fields: "store_inv lib gs \<Longrightarrow> \<forall>g\<in>set gs. 2 \<le> length g"
  by (simp add: store_inv_def)

lemma process_mention_post:
  assumes "library_ok lib" "store_inv lib gs"
  shows "io_post (\<lambda>(gs', written). store_inv lib gs' \<and> written = map game_line gs')
           (process_mention lib m gs)"
  unfolding process_mention_def
proof (rule io_post_bind_try, rule io_post_bind [OF commands_inv [OF assms(2)]])
  fix game_index :: int and v :: vars
  assume v: "store_inv lib (list_of_games v)"
  have mp: "io_post (\<lambda>v'. store_inv lib (list_of_games v'))
              (if make_a_move v then move_part lib m v else io_return v)"
    using move_part_post [OF assms(1) v] v by simp
  show "io_post (\<lambda>(gs', written). store_inv lib gs' \<and> written = map game_line gs')
         (io_bind (if make_a_move v then move_part lib m v else io_return v)
           (\<lambda>v'. io_bind (if game_over v' then game_over_part m v' else io_return ())
                  (\<lambda>_. io_bind (write_games (list_of_games v'))
                         (\<lambda>written. io_return (list_of_games v', written)))))"
  proof (rule io_post_bind [OF mp], rule io_post_bind [where P = "\<lambda>_. True"])
    fix v' :: vars
    assume v': "store_inv lib (list_of_games v')"
    show "io_post (\<lambda>_. True) (if game_over v' then game_over_part m v' else io_return ())"
      by (simp add: io_post_def)
    show "io_post (\<lambda>(gs', written). store_inv lib gs' \<and> written = map game_line gs')
           (io_bind (write_games (list_of_games v'))
             (\<lambda>written. io_return (list_of_games v', written)))"
      using v' by (simp add: write_games_ok [OF store_inv_fields [OF v']] io_simps)
  qed
qed

lemma io_fails_with_bind:
  assumes "io_events Q m" "io_post P m" "\<And>x. P x \<Longrightarrow> io_fails_with Q (f x)"
  shows "io_fails_with Q (io_bind m f)"
proof -
  obtain es r where m: "m = (es, r)" by (cases m)
  show ?thesis
  proof (cases r)
    case (Inl e)
    with m assms(1) show ?thesis by (simp add: io_fails_with_def io_bind_def io_events_def)
  next
    case (Inr x)
    with m assms(2) have "P x" by (simp add: io_post_def)
    from assms(3) [OF this] have "io_fails_with Q (f x)" .
    then show ?thesis using m Inr assms(1)
      by (cases "f x") (auto simp: io_fails_with_def io_bind_def io_events_def)
  qed
qed

lemma process_mention_fails:
  assumes "library_ok lib" "store_inv lib gs"
  shows "io_fails_with (\<lambda>ev. \<not> is_write_games ev) (process_mention lib m gs)"
  unfolding process_mention_def
proof (rule io_fails_with_bind [where P = "\<lambda>_. True"])
  show "io_events (\<lambda>ev. \<not> is_write_games ev) (io_try (find_game (m_screen_name m) gs))"
    by simp
  show "io_post (\<lambda>_. True) (io_try (find_game (m_screen_name m) gs))" by simp
next
  fix game_index
  show "io_fails_with (\<lambda>ev. \<not> is_write_games ev)
         (io_bind (commands lib m gs game_index)
           (\<lambda>v. io_bind (if make_a_move v then move_part lib m v else io_return v)
                 (\<lambda>v'. io_bind (if game_over v' then game_over_part m v' else io_return ())
                        (\<lambda>_. io_bind (write_games (list_of_games v'))
                               (\<lambda>written. io_return (list_of_games v', written))))))"
  proof (rule io_fails_with_bind [OF _ commands_inv [OF assms(2)]])
    show "io_events (\<lambda>ev. \<not> is_write_games ev) (commands lib m gs game_index)"
      by (rule commands_events) simp_all
  next
    fix v :: vars
    assume v: "store_inv lib (list_of_games v)"
    have mp: "io_post (\<lambda>v'. store_inv lib (list_of_games v'))
              (if make_a_move v then move_part lib m v else io_return v)"
      using move_part_post [OF assms(1) v] v by simp
    have me: "io_events (\<lambda>ev. \<not> is_write_games ev)
              (if make_a_move v then move_part lib m v else io_return v)"
      by (simp add: move_part_events)
    show "io_fails_with (\<lambda>ev. \<not> is_write_games ev)
           (io_bind (if make_a_move v then move_part lib m v else io_return v)
             (\<lambda>v'. io_bind (if game_over v' then game_over_part m v' else io_return ())
                    (\<lambda>_. io_bind (write_games (list_of_games v'))
                           (\<lambda>written. io_return (list_of_games v', written)))))"
    proof (rule io_fails_with_bind [OF me mp])
      fix v' :: vars
      assume v': "store_inv lib (list_of_games v')"
      have ge: "io_events (\<lambda>ev. \<not> is_write_games ev)
                 (if game_over v' then game_over_part m v' else io_return ())"
        by (simp add: game_over_part_events)
      show "io_fails_with (\<lambda>ev. \<not> is_write_games ev)
             (io_bind (if game_over v' then game_over_part m v' else io_return ())
               (\<lambda>_. io_bind (write_games (list_of_games v'))
                      (\<lambda>written. io_return (list_of_games v', written))))"
        by (rule io_fails_with_bind [OF ge, where P = "\<lambda>_. True"])
           (simp_all add: io_post_def io_fails_with_def
              write_games_ok [OF store_inv_fields [OF v']] io_simps)
    qed
  qed
qed

text \<open>
  Claim C2. Let the library write moves as move tokens, and let every game of the list have
  its two fields and a history that can be replayed from the initial position. When the turn
  for a mention ends without an exception, the same holds of the list of games that it
  leaves, and the lines it has written are the lines of that list. When the turn ends with an
  exception, it has not opened the games file for writing, and the file is as it was. So
  every turn keeps the invariant of the store.
\<close>

theorem turn_preserves_store_inv:
  assumes "library_ok lib" "store_inv lib gs"
  shows "(\<forall>es gs' written. process_mention lib m gs = (es, Inr (gs', written)) \<longrightarrow>
            store_inv lib gs' \<and> written = map game_line gs')
         \<and> (\<forall>es e. process_mention lib m gs = (es, Inl e) \<longrightarrow>
               (\<forall>ev\<in>set es. \<not> is_write_games ev))"
  using process_mention_post [OF assms, of m] process_mention_fails [OF assms, of m]
  by (simp add: io_post_def io_fails_with_def)

text \<open>The small library, and a turn that starts a game next to another.\<close>

lemma mini_library_ok: "library_ok mini_chess"
proof -
  have tok: "san_token t" if "t \<in> set (mini_sans b)" for t b
    using that by (auto simp: mini_sans_def san_token_def is_space_def split: if_splits)
  have "san_token s" if "san_of_uci mini_chess b uci = Inr s" for b uci s
  proof -
    from that have "b < 4" "s = hd (mini_sans b)"
      by (auto simp: mini_chess_def split: if_splits)
    then have "s \<in> set (mini_sans b)" by (auto simp: mini_sans_def)
    then show ?thesis by (rule tok)
  qed
  then show ?thesis using tok by (auto simp: library_ok_def mini_chess_def)
qed

lemma turn_start_f3_on:
  assumes "find_game ''bob'' gs = Inr (- 1)" "\<forall>g\<in>set gs. 2 \<le> length g"
  shows "process_mention mini_chess
     \<lparr>m_id = 105, m_screen_name = ''bob'', m_full_text = ''@bot #startgame captures f3''\<rparr> gs
   = ([ApplyBotMove [''f3''], UpdateWithMedia ''@bob e5'' 105,
       WriteGames (map game_line (gs @ [[''bob'', ''f3 e5 '']]))],
      Inr (gs @ [[''bob'', ''f3 e5 '']], map game_line (gs @ [[''bob'', ''f3 e5 '']])))"
proof -
  have w: "\<forall>g\<in>set (gs @ [[''bob'', ''f3 e5 '']]). 2 \<le> length g" using assms(2) by simp
  show ?thesis
    using assms(1)
    by (simp add: io_simps process_mention_def commands_def start_f3_text
        startgame_branch_def move_part_def get_moves_def deref_def mini_strings play_def
        mini_player_f3 player_moved_def mini_replay bot_reply_def mini_bot_e5 update_game_def
        set_moves_def write_games_ok [OF w] status_to_def Let_def
        io_try_def io_return_def io_call_def)
qed

theorem turn_preserves_store_inv_witness:
  "library_ok mini_chess
   \<and> store_inv mini_chess [[''al'', ''f3 e5 '']]
   \<and> process_mention mini_chess
         \<lparr>m_id = 105, m_screen_name = ''bob'', m_full_text = ''@bot #startgame captures f3''\<rparr>
         [[''al'', ''f3 e5 '']]
       = ([ApplyBotMove [''f3''], UpdateWithMedia ''@bob e5'' 105,
           WriteGames [''al,f3 e5 '' @ [CHR 0x0A], ''bob,f3 e5 '' @ [CHR 0x0A]]],
          Inr ([[''al'', ''f3 e5 ''], [''bob'', ''f3 e5 '']],
               [''al,f3 e5 '' @ [CHR 0x0A], ''bob,f3 e5 '' @ [CHR 0x0A]]))
   \<and> store_inv mini_chess [[''al'', ''f3 e5 ''], [''bob'', ''f3 e5 '']]"
proof -
  let ?m = "\<lparr>m_id = 105, m_screen_name = ''bob'', m_full_text = ''@bot #startgame captures f3''\<rparr>"
  have sp: "py_split ''f3 e5 '' = [''f3'', ''e5'']" by code_simp
  have inv: "store_inv mini_chess [[''al'', ''f3 e5 '']]"
    by (simp add: store_inv_def sp mini_replay)
  have fg: "find_game ''bob'' [[''al'', ''f3 e5 '']] = Inr (- 1)" by code_simp
  have ev: "process_mention mini_chess ?m [[''al'', ''f3 e5 '']]
       = ([ApplyBotMove [''f3''], UpdateWithMedia ''@bob e5'' 105,
           WriteGames [''al,f3 e5 '' @ [CHR 0x0A], ''bob,f3 e5 '' @ [CHR 0x0A]]],
          Inr ([[''al'', ''f3 e5 ''], [''bob'', ''f3 e5 '']],
               [''al,f3 e5 '' @ [CHR 0x0A], ''bob,f3 e5 '' @ [CHR 0x0A]]))"
    using turn_start_f3_on [OF fg] by (simp add: game_line_def)
  from turn_preserves_store_inv [OF mini_library_ok inv, of ?m] ev
  have "store_inv mini_chess [[''al'', ''f3 e5 ''], [''bob'', ''f3 e5 '']]" by simp
  with mini_library_ok inv ev show ?thesis by simp
qed

section \<open>The turn of a move\<close>






















section \<open>Games without moves\<close>



section \<open>The mate of the player\<close>



end
